theory Spec2Isabelle
  imports Main "HOL-Library.Word"
begin

section \<open>Data model of \<open>server/local/repos_srclib_version.go\<close>\<close>

text \<open>
  The resolver \<open>GetSrclibDataVersionForPath\<close> decides which commit's srclib data may
  stand in for a requested (repository, commit, path). It owns no data: everything it
  learns comes from four collaborators (access control, revision resolution, the srclib
  graph store and the commit listing of the repos service) and one process-wide flag.
  The collaborators are parameters of the model, and every call to one of them is
  recorded in a trace, so that statements about which queries are issued can be made.
  The \<open>log15.Debug\<close> lines of the source have no effect on the result and are left out.
\<close>

type_synonym int32 = "32 word"

record RepoSpec =
  URI :: string

record RepoRevSpec = RepoSpec +
  Rev :: string
  CommitID :: string

record TreeEntrySpec =
  RepoRev :: RepoRevSpec
  Path :: string

text \<open>\<open>srclibstore.Version\<close>, of which the resolver reads the commit id only.\<close>

record Version =
  Repo :: string
  vCommitID :: string

text \<open>\<open>vcs.Commit\<close>; the resolver reads and writes its \<open>ID\<close> only.\<close>

record Commit =
  ID :: string

record ListOptions =
  PerPage :: int32

record RepoListCommitsOptions = ListOptions +
  Head :: string
  Base :: string
  optPath :: string

record ReposListCommitsOp =
  opRepo :: RepoSpec
  Opt :: RepoListCommitsOptions

text \<open>The result, \<open>sourcegraph.SrclibDataVersion\<close>.\<close>

record SrclibDataVersion =
  dvCommitID :: string
  CommitsBehind :: int32

text \<open>The filters the resolver hands to \<open>Versions\<close>.\<close>

datatype VersionFilter =
    ByRepoCommitIDs "Version list"
  | ByRepos "string list"
  | ByCommitIDs "string list"

subsection \<open>Errors\<close>

text \<open>The gRPC status codes (\<open>google.golang.org/grpc/codes\<close>).\<close>

datatype code =
    OK | Canceled | Unknown | InvalidArgument | DeadlineExceeded | NotFound
  | AlreadyExists | PermissionDenied | ResourceExhausted | FailedPrecondition
  | Aborted | OutOfRange | Unimplemented | Internal | Unavailable | DataLoss
  | Unauthenticated

text \<open>
  An error message is one of the four format strings of the resolver together with its
  arguments, or the opaque text of an error that a collaborator made.
\<close>

datatype message =
    NoVersionForRoot RepoRevSpec
      \<comment> \<open>no srclib data version found for head commit .. (can't look-back because path is root)\<close>
  | NoCommitsForPath string RepoRevSpec
      \<comment> \<open>no commits found for path .. in repo ..\<close>
  | LastModifiedByHead RepoRevSpec
      \<comment> \<open>no srclib data version found for head commit .. (.. path was last modified by head commit)\<close>
  | NoVersionsFound TreeEntrySpec nat nat
      \<comment> \<open>no srclib data versions found for .. (.. candidate commits, .. srclib data versions)\<close>
  | Text string

datatype error = Errorf code message

subsection \<open>Collaborators and the trace of calls\<close>

record env =
  VerifyUserHasReadAccess :: "string \<Rightarrow> error option"
    \<comment> \<open>\<open>accesscontrol.VerifyUserHasReadAccess\<close>: \<open>None\<close> is Go's \<open>nil\<close> error\<close>
  resolveRepoRev :: "RepoRevSpec \<Rightarrow> error + RepoRevSpec"
    \<comment> \<open>\<open>s.resolveRepoRev\<close>, which rewrites the revision it is given in place\<close>
  Versions :: "VersionFilter list \<Rightarrow> error + Version list"
    \<comment> \<open>\<open>store.GraphFromContext(ctx).Versions\<close>\<close>
  ListCommits :: "ReposListCommitsOp \<Rightarrow> error + Commit list"
    \<comment> \<open>\<open>svc.Repos(ctx).ListCommits\<close>, the \<open>Commits\<close> of its answer\<close>
  CommitLogCacheSize :: int32
    \<comment> \<open>\<open>localcli.Flags.CommitLogCacheSize\<close>\<close>

datatype call =
    VerifyUserHasReadAccessCall string
  | resolveRepoRevCall RepoRevSpec
  | VersionsCall "VersionFilter list"
  | ListCommitsCall ReposListCommitsOp

section \<open>The resolver\<close>

text \<open>Lines 102 to 106: the page size of the candidate listing.\<close>

definition lookbackLimit :: "int32 \<Rightarrow> int32" where
  "lookbackLimit commitLogCacheSize =
     (if 250 <s commitLogCacheSize then commitLogCacheSize else 250)"

text \<open>Lines 149 to 152: the set of commit ids that have a version, as a Go map.\<close>

definition mkVerMap :: "Version list \<Rightarrow> (string \<rightharpoonup> unit)" where
  "mkVerMap vers = fold (\<lambda>ver verMap. verMap(vCommitID ver \<mapsto> ())) vers Map.empty"

text \<open>
  Lines 154 to 158: the scan of the candidates, \<open>i\<close> being the index of the head of
  the list. \<open>int32(i)\<close> keeps the low 32 bits of the index.
\<close>

fun scanCandidates :: "(string \<rightharpoonup> unit) \<Rightarrow> string list \<Rightarrow> nat \<Rightarrow> SrclibDataVersion option" where
  "scanCandidates verMap [] i = None"
| "scanCandidates verMap (cc # ccs) i =
     (if verMap cc \<noteq> None
      then Some \<lparr>dvCommitID = cc, CommitsBehind = word_of_nat i\<rparr>
      else scanCandidates verMap ccs (Suc i))"

text \<open>Lines 76 to 83: the request for the last commit that touched the path.\<close>

definition lastPathCommitOp :: "TreeEntrySpec \<Rightarrow> ReposListCommitsOp" where
  "lastPathCommitOp entry =
     \<lparr>opRepo = RepoSpec.truncate (RepoRev entry),
      Opt = \<lparr>PerPage = 1, Head = CommitID (RepoRev entry), Base = '''',
              optPath = Path entry\<rparr>\<rparr>"

text \<open>Lines 74 to 100: the base commit, with the calls made to find it.\<close>

definition findBase :: "env \<Rightarrow> TreeEntrySpec \<Rightarrow> call list \<times> (error + string)" where
  "findBase s entry =
     (if Path entry \<noteq> '''' then
        (let op = lastPathCommitOp entry
         in case ListCommits s op of
              Inl err \<Rightarrow> ([ListCommitsCall op], Inl err)
            | Inr lastPathCommit \<Rightarrow>
                if length lastPathCommit \<noteq> 1
                then ([ListCommitsCall op],
                      Inl (Errorf NotFound (NoCommitsForPath (Path entry) (RepoRev entry))))
                else (let lastPathCommitID = ID (lastPathCommit ! 0)
                      in if CommitID (RepoRev entry) = lastPathCommitID
                         then ([ListCommitsCall op],
                               Inl (Errorf NotFound (LastModifiedByHead (RepoRev entry))))
                         else ([ListCommitsCall op], Inr lastPathCommitID)))
      else ([], Inr ''''))"

text \<open>Lines 108 to 123: the request that lists the candidates.\<close>

definition candidatesOp :: "env \<Rightarrow> TreeEntrySpec \<Rightarrow> string \<Rightarrow> ReposListCommitsOp" where
  "candidatesOp s entry base =
     \<lparr>opRepo = RepoSpec.truncate (RepoRev entry),
      Opt = \<lparr>PerPage = lookbackLimit (CommitLogCacheSize s),
              Head = CommitID (RepoRev entry), Base = base, optPath = ''''\<rparr>\<rparr>"

text \<open>Lines 128 to 139: the candidate ids, the base added back at the end.\<close>

definition candidateCommitIDs :: "string \<Rightarrow> Commit list \<Rightarrow> string list" where
  "candidateCommitIDs base candidateCommits =
     map ID (if base \<noteq> '''' then candidateCommits @ [\<lparr>ID = base\<rparr>] else candidateCommits)"

definition getSrclibDataVersionForPathLookback ::
    "env \<Rightarrow> TreeEntrySpec \<Rightarrow> call list \<times> (error + SrclibDataVersion)" where
  "getSrclibDataVersionForPathLookback s entry =
     (case findBase s entry of
        (t1, Inl err) \<Rightarrow> (t1, Inl err)
      | (t1, Inr base) \<Rightarrow>
          (let op = candidatesOp s entry base;
               t2 = t1 @ [ListCommitsCall op]
           in case ListCommits s op of
                Inl err \<Rightarrow> (t2, Inl err)
              | Inr candidateCommits \<Rightarrow>
                  (let ids = candidateCommitIDs base candidateCommits;
                       q = [ByRepos [URI (RepoRev entry)], ByCommitIDs ids];
                       t3 = t2 @ [VersionsCall q]
                   in case Versions s q of
                        Inl err \<Rightarrow> (t3, Inl err)
                      | Inr vers \<Rightarrow>
                          (case scanCandidates (mkVerMap vers) ids 0 of
                             Some r \<Rightarrow> (t3, Inr r)
                           | None \<Rightarrow>
                               (t3, Inl (Errorf NotFound
                                  (NoVersionsFound entry (length ids) (length vers))))))))"

text \<open>Lines 20 to 58: the entry point.\<close>

definition exactQuery :: "RepoRevSpec \<Rightarrow> VersionFilter list" where
  "exactQuery rr = [ByRepoCommitIDs [\<lparr>Repo = URI rr, vCommitID = CommitID rr\<rparr>]]"

definition GetSrclibDataVersionForPath ::
    "env \<Rightarrow> TreeEntrySpec \<Rightarrow> call list \<times> (error + SrclibDataVersion)" where
  "GetSrclibDataVersionForPath s entry0 =
     (let t1 = [VerifyUserHasReadAccessCall (URI (RepoRev entry0))]
      in case VerifyUserHasReadAccess s (URI (RepoRev entry0)) of
           Some err \<Rightarrow> (t1, Inl err)
         | None \<Rightarrow>
             (let t2 = t1 @ [resolveRepoRevCall (RepoRev entry0)]
              in case resolveRepoRev s (RepoRev entry0) of
                   Inl err \<Rightarrow> (t2, Inl err)
                 | Inr rr \<Rightarrow>
                     (let entry = entry0\<lparr>RepoRev := rr\<rparr>;
                          t3 = t2 @ [VersionsCall (exactQuery rr)]
                      in case Versions s (exactQuery rr) of
                           Inl err \<Rightarrow> (t3, Inl err)
                         | Inr vers \<Rightarrow>
                             if length vers = 1
                             then (t3, Inr \<lparr>dvCommitID = vCommitID (vers ! 0),
                                            CommitsBehind = 0\<rparr>)
                             else if Path entry = ''.''
                             then (t3, Inl (Errorf NotFound (NoVersionForRoot (RepoRev entry))))
                             else (case getSrclibDataVersionForPathLookback s entry of
                                     (t4, r) \<Rightarrow> (t3 @ t4, r)))))"

section \<open>The collaborators as the specification describes them\<close>

text \<open>
  The history of a repository on the direct ancestry line: its commits from the newest
  backward, each with the paths it modified.
\<close>

type_synonym history = "(Commit \<times> string list) list"

definition fromHead :: "history \<Rightarrow> string \<Rightarrow> history" where
  "fromHead log h = dropWhile (\<lambda>(c, ps). ID c \<noteq> h) log"

text \<open>
  Modelled from the spec: the History Provider behind \<open>svc.Repos(ctx).ListCommits\<close>,
  which is not among the sources. The specification gives it as
  \<open>ListCommits(repo, head, base?, limit)\<close>, the ordered list of commits from head
  backward, excluding base, truncated to the limit, and as \<open>LastCommitTouching\<close>, which
  the resolver asks for through the same call with a path and a limit of one.
\<close>

definition hpListCommits :: "history \<Rightarrow> ReposListCommitsOp \<Rightarrow> error + Commit list" where
  "hpListCommits log op =
     (let opt = Opt op;
          ancestors = fromHead log (Head opt);
          range = (if Base opt \<noteq> ''''
                   then takeWhile (\<lambda>(c, ps). ID c \<noteq> Base opt) ancestors else ancestors);
          touching = (if optPath opt \<noteq> ''''
                      then filter (\<lambda>(c, ps). optPath opt \<in> set ps) range else range)
      in Inr (map fst (take (nat (sint (PerPage opt))) touching)))"

text \<open>
  Modelled from the spec: the Version Store behind
  \<open>store.GraphFromContext(ctx).Versions\<close>, which is not among the sources. The
  specification gives it as the records that exist for (repository, commit) pairs,
  queried as "exactly at (repo, commit)" and as "which of these commit ids have a record,
  for this repo"; a record is returned when it passes every filter of the query.
\<close>

fun passes :: "Version \<Rightarrow> VersionFilter \<Rightarrow> bool" where
  "passes v (ByRepoCommitIDs vs) = (\<exists>w \<in> set vs. Repo w = Repo v \<and> vCommitID w = vCommitID v)"
| "passes v (ByRepos rs) = (Repo v \<in> set rs)"
| "passes v (ByCommitIDs cs) = (vCommitID v \<in> set cs)"

definition vsVersions :: "Version list \<Rightarrow> VersionFilter list \<Rightarrow> error + Version list" where
  "vsVersions records fs = Inr (filter (\<lambda>v. \<forall>f \<in> set fs. passes v f) records)"

definition worldEnv ::
    "(string \<Rightarrow> error option) \<Rightarrow> (RepoRevSpec \<Rightarrow> error + RepoRevSpec) \<Rightarrow> int32 \<Rightarrow>
     (string \<Rightarrow> history) \<Rightarrow> Version list \<Rightarrow> env" where
  "worldEnv access resolve flag histories records =
     \<lparr>VerifyUserHasReadAccess = access,
      resolveRepoRev = resolve,
      Versions = vsVersions records,
      ListCommits = (\<lambda>op. hpListCommits (histories (URI (opRepo op))) op),
      CommitLogCacheSize = flag\<rparr>"

text \<open>
  Modelled from the spec: the notions in which the specification states its invariant.
  The root is the path \<open>""\<close> or \<open>"."\<close>, every commit modifies the root, the boundary
  \<open>M\<close> is the most recent commit at or before the head that modified the path, the
  window is the line of commits from the head back to \<open>M\<close>, and the distance of a commit
  is the number of commits between the head and it on that line.
\<close>

definition isRoot :: "string \<Rightarrow> bool" where
  "isRoot p = (p = '''' \<or> p = ''.'')"

definition boundary :: "history \<Rightarrow> string \<Rightarrow> string \<Rightarrow> string option" where
  "boundary log h p =
     (case filter (\<lambda>(c, ps). isRoot p \<or> p \<in> set ps) (fromHead log h) of
        [] \<Rightarrow> None
      | (c, ps) # _ \<Rightarrow> Some (ID c))"


definition ancestryDistance :: "history \<Rightarrow> string \<Rightarrow> string \<Rightarrow> nat" where
  "ancestryDistance log h c =
     length (takeWhile (\<lambda>d. d \<noteq> c) (map (\<lambda>(c, ps). ID c) (fromHead log h)))"

subsection \<open>Histories with merges\<close>

text \<open>
  The history of a repository as the graph it is: its commits from the newest backward,
  every commit before its parents, each with the ids of its parents and the paths it
  modified. The commits reachable from a set of wanted ids are collected in one pass,
  the parents of every commit taken becoming wanted in turn.
\<close>

type_synonym graph = "(Commit \<times> string list \<times> string list) list"

fun reachable :: "string list \<Rightarrow> graph \<Rightarrow> graph" where
  "reachable wanted [] = []"
| "reachable wanted ((c, parents, paths) # older) =
     (if ID c \<in> set wanted
      then (c, parents, paths) # reachable (parents @ wanted) older
      else reachable wanted older)"

definition commitIds :: "graph \<Rightarrow> string list" where
  "commitIds g = map (\<lambda>(c, parents, paths). ID c) g"

text \<open>
  Modelled from the spec: the History Provider behind \<open>svc.Repos(ctx).ListCommits\<close>,
  which is not among the sources, over a graph. The specification gives it as
  \<open>ListCommits(repo, head, base?, limit)\<close>, the ordered list of commits from head
  backward, excluding base, truncated to the limit; the source reads the exclusion as
  that of a git range (lines 128 to 131): the commits reachable from the head that are
  not reachable from the base.
\<close>

definition gitListCommits :: "graph \<Rightarrow> ReposListCommitsOp \<Rightarrow> error + Commit list" where
  "gitListCommits g op =
     (let opt = Opt op;
          ancestors = reachable [Head opt] g;
          excluded = commitIds (reachable [Base opt] g);
          range = (if Base opt \<noteq> ''''
                   then filter (\<lambda>(c, parents, paths). ID c \<notin> set excluded) ancestors
                   else ancestors);
          touching = (if optPath opt \<noteq> ''''
                      then filter (\<lambda>(c, parents, paths). optPath opt \<in> set paths) range
                      else range)
      in Inr (map fst (take (nat (sint (PerPage opt))) touching)))"

definition graphEnv ::
    "(string \<Rightarrow> error option) \<Rightarrow> (RepoRevSpec \<Rightarrow> error + RepoRevSpec) \<Rightarrow> int32 \<Rightarrow>
     (string \<Rightarrow> graph) \<Rightarrow> Version list \<Rightarrow> env" where
  "graphEnv access resolve flag graphs records =
     \<lparr>VerifyUserHasReadAccess = access,
      resolveRepoRev = resolve,
      Versions = vsVersions records,
      ListCommits = (\<lambda>op. gitListCommits (graphs (URI (opRepo op))) op),
      CommitLogCacheSize = flag\<rparr>"

text \<open>
  Modelled from the spec: ancestry order and the boundary over a graph. \<open>descends g c a\<close>
  says that \<open>a\<close> is reachable from \<open>c\<close>: \<open>c\<close> is \<open>a\<close> or a descendant of \<open>a\<close>. The
  boundary is the first commit reachable from the head that modified the path. A history
  is free of merges when every commit has the next older commit as its only parent.
\<close>

definition descends :: "graph \<Rightarrow> string \<Rightarrow> string \<Rightarrow> bool" where
  "descends g c a = (a \<in> set (commitIds (reachable [c] g)))"

definition lastTouching :: "graph \<Rightarrow> string \<Rightarrow> string \<Rightarrow> string option" where
  "lastTouching g h p =
     (case filter (\<lambda>(c, parents, paths). isRoot p \<or> p \<in> set paths) (reachable [h] g) of
        [] \<Rightarrow> None
      | (c, parents, paths) # _ \<Rightarrow> Some (ID c))"


section \<open>Reading a trace\<close>

text \<open>What a recorded call met: the error it came back with, if any.\<close>

fun failure :: "env \<Rightarrow> call \<Rightarrow> error option" where
  "failure s (VerifyUserHasReadAccessCall uri) = VerifyUserHasReadAccess s uri"
| "failure s (resolveRepoRevCall rr) =
     (case resolveRepoRev s rr of Inl err \<Rightarrow> Some err | Inr _ \<Rightarrow> None)"
| "failure s (VersionsCall q) =
     (case Versions s q of Inl err \<Rightarrow> Some err | Inr _ \<Rightarrow> None)"
| "failure s (ListCommitsCall op) =
     (case ListCommits s op of Inl err \<Rightarrow> Some err | Inr _ \<Rightarrow> None)"

text \<open>The messages that the resolver itself makes.\<close>

fun resolverMessage :: "message \<Rightarrow> bool" where
  "resolverMessage (Text _) = False"
| "resolverMessage _ = True"

section \<open>Worked scenarios\<close>

text \<open>
  Concrete collaborators on which the theorems below are exercised: access control that
  grants or denies everything, revisions that are resolved already, a history of five
  commits, a history of 272 commits that is longer than the smallest lookback limit,
  and a commit listing that is out of service.
\<close>

definition grant :: "string \<Rightarrow> error option" where
  "grant uri = None"

definition deny :: "string \<Rightarrow> error option" where
  "deny uri = Some (Errorf PermissionDenied (Text ''read access denied''))"

definition resolved :: "RepoRevSpec \<Rightarrow> error + RepoRevSpec" where
  "resolved rr = Inr rr"

definition atHead :: RepoRevSpec where
  "atHead = \<lparr>URI = ''r'', Rev = ''master'', CommitID = ''h''\<rparr>"

definition shortHistory :: history where
  "shortHistory =
     [(\<lparr>ID = ''h''\<rparr>, [''README'']),
      (\<lparr>ID = ''a''\<rparr>, [''b.go'']),
      (\<lparr>ID = ''b''\<rparr>, [''README'']),
      (\<lparr>ID = ''m''\<rparr>, [''a.go'']),
      (\<lparr>ID = ''z''\<rparr>, [''a.go'', ''b.go''])]"

definition shortWorld :: "Version list \<Rightarrow> env" where
  "shortWorld records = worldEnv grant resolved 0 (\<lambda>uri. shortHistory) records"

definition deniedWorld :: env where
  "deniedWorld = worldEnv deny resolved 0 (\<lambda>uri. shortHistory) [\<lparr>Repo = ''r'', vCommitID = ''h''\<rparr>]"

text \<open>
  The commits \<open>aa\<close>, \<open>ab\<close>, .., \<open>qp\<close> from the newest backward; only \<open>qe\<close>, which is
  260 commits behind \<open>aa\<close>, modified \<open>a.go\<close>.
\<close>

definition longHistory :: history where
  "longHistory =
     map (\<lambda>(x, y). (\<lparr>ID = [x, y]\<rparr>, if [x, y] = ''qe'' then [''a.go''] else []))
       (List.product ''abcdefghijklmnopq'' ''abcdefghijklmnop'')"

definition longWorld :: env where
  "longWorld =
     worldEnv grant resolved 0 (\<lambda>uri. longHistory) [\<lparr>Repo = ''r'', vCommitID = ''qe''\<rparr>]"

definition gitDown :: error where
  "gitDown = Errorf Unavailable (Text ''git backend down'')"

definition brokenWorld :: env where
  "brokenWorld = (shortWorld [\<lparr>Repo = ''r'', vCommitID = ''m''\<rparr>])\<lparr>ListCommits := (\<lambda>op. Inl gitDown)\<rparr>"

definition atLongHead :: RepoRevSpec where
  "atLongHead = \<lparr>URI = ''r'', Rev = ''master'', CommitID = ''aa''\<rparr>"

definition elsewhere :: RepoRevSpec where
  "elsewhere = \<lparr>URI = ''q'', Rev = ''dev'', CommitID = ''k''\<rparr>"


definition mergeGraph :: graph where
  "mergeGraph =
     [(\<lparr>ID = ''h''\<rparr>, [''a'', ''x''], []),
      (\<lparr>ID = ''a''\<rparr>, [''m''], [''b.go'']),
      (\<lparr>ID = ''x''\<rparr>, [''z''], [''README'']),
      (\<lparr>ID = ''m''\<rparr>, [''z''], [''a.go'']),
      (\<lparr>ID = ''z''\<rparr>, [], [''a.go'', ''b.go''])]"

definition graphWorld :: "graph \<Rightarrow> Version list \<Rightarrow> env" where
  "graphWorld g records = graphEnv grant resolved 0 (\<lambda>uri. g) records"

text \<open>The short history under a cache size of 1000.\<close>

definition cachedWorld :: env where
  "cachedWorld = worldEnv grant resolved 1000 (\<lambda>uri. shortHistory) []"

section \<open>Facts about the parts of the resolver\<close>

lemmas resolver_defs =
  GetSrclibDataVersionForPath_def getSrclibDataVersionForPathLookback_def findBase_def Let_def

subsection \<open>The membership map and the scan\<close>

lemma mkVerMap_fold:
  "fold (\<lambda>ver verMap. verMap(vCommitID ver \<mapsto> ())) vers m c = None \<longleftrightarrow>
     m c = None \<and> c \<notin> vCommitID ` set vers"
  by (induction vers arbitrary: m) auto

lemma mkVerMap_present: "mkVerMap vers c = None \<longleftrightarrow> c \<notin> vCommitID ` set vers"
  by (simp add: mkVerMap_def mkVerMap_fold)

lemma not_Some_unit: "(x :: unit option) \<noteq> Some () \<longleftrightarrow> x = None"
  by (cases x) auto

lemma scanCandidates_None: "scanCandidates vm cs k = None \<longleftrightarrow> (\<forall>c \<in> set cs. vm c = None)"
  by (induction cs arbitrary: k) (auto simp: not_Some_unit)

lemma scanCandidates_first:
  "i < length cs \<Longrightarrow> vm (cs ! i) \<noteq> None \<Longrightarrow> \<forall>j<i. vm (cs ! j) = None \<Longrightarrow>
     scanCandidates vm cs k = Some \<lparr>dvCommitID = cs ! i, CommitsBehind = word_of_nat (k + i)\<rparr>"
proof (induction cs arbitrary: i k)
  case Nil
  then show ?case by simp
next
  case (Cons c cs)
  show ?case
  proof (cases i)
    case 0
    with Cons.prems show ?thesis by simp
  next
    case (Suc n)
    with Cons.prems have "vm c = None" by auto
    moreover have "scanCandidates vm cs (Suc k) =
        Some \<lparr>dvCommitID = cs ! n, CommitsBehind = word_of_nat (Suc k + n)\<rparr>"
      using Cons.prems Suc by (intro Cons.IH) auto
    ultimately show ?thesis using Suc by simp
  qed
qed


lemma scan_boundary_only:
  assumes "m \<in> vCommitID ` set vers" and "\<forall>c \<in> set cs. c \<notin> vCommitID ` set vers"
  shows "scanCandidates (mkVerMap vers) (cs @ [m]) 0 =
           Some \<lparr>dvCommitID = m, CommitsBehind = word_of_nat (length cs)\<rparr>"
proof -
  have "scanCandidates (mkVerMap vers) (cs @ [m]) 0 =
          Some \<lparr>dvCommitID = (cs @ [m]) ! length cs, CommitsBehind = word_of_nat (0 + length cs)\<rparr>"
  proof (rule scanCandidates_first)
    show "length cs < length (cs @ [m])" by simp
    show "mkVerMap vers ((cs @ [m]) ! length cs) \<noteq> None"
      using assms by (simp add: mkVerMap_present)
    show "\<forall>j<length cs. mkVerMap vers ((cs @ [m]) ! j) = None"
      using assms by (simp add: mkVerMap_present nth_append)
  qed
  then show ?thesis by simp
qed

subsection \<open>The lookback limit\<close>

lemma lookbackLimit_sint: "sint (lookbackLimit v) = max 250 (sint v)"
  by (simp add: lookbackLimit_def word_sless_alt max_def)

lemma lookbackLimit_word: "word_of_nat (nat (sint (lookbackLimit v))) = lookbackLimit v"
proof -
  have "0 < sint (lookbackLimit v)" by (simp add: lookbackLimit_def word_sless_alt)
  then show ?thesis by simp
qed

lemma listing_page_size:
  "ListCommitsCall op \<in> set (fst (GetSrclibDataVersionForPath s entry)) \<Longrightarrow>
     optPath (Opt op) = '''' \<Longrightarrow> PerPage (Opt op) = lookbackLimit (CommitLogCacheSize s)"
  by (auto simp: resolver_defs lastPathCommitOp_def candidatesOp_def
           split: sum.splits prod.splits if_splits option.splits)

subsection \<open>The stages of the resolver\<close>

lemma resolver_falls_through:
  assumes "VerifyUserHasReadAccess s (URI (RepoRev entry)) = None"
    and "resolveRepoRev s (RepoRev entry) = Inr rr"
    and "Versions s (exactQuery rr) = Inr vers" and "length vers \<noteq> 1"
    and "Path entry \<noteq> ''.''"
  shows "GetSrclibDataVersionForPath s entry =
           ([VerifyUserHasReadAccessCall (URI (RepoRev entry)),
             resolveRepoRevCall (RepoRev entry), VersionsCall (exactQuery rr)] @
             fst (getSrclibDataVersionForPathLookback s (entry\<lparr>RepoRev := rr\<rparr>)),
            snd (getSrclibDataVersionForPathLookback s (entry\<lparr>RepoRev := rr\<rparr>)))"
  using assms
  by (cases "getSrclibDataVersionForPathLookback s (entry\<lparr>RepoRev := rr\<rparr>)")
     (simp add: GetSrclibDataVersionForPath_def Let_def)

lemma lookback_at_scan:
  assumes "getSrclibDataVersionForPathLookback s entry = (tr, res)"
    and "tr \<noteq> []" and "last tr = VersionsCall [ByRepos rs, ByCommitIDs ids]"
    and "Versions s [ByRepos rs, ByCommitIDs ids] = Inr vers"
  shows "res = (case scanCandidates (mkVerMap vers) ids 0 of
                  Some r \<Rightarrow> Inr r
                | None \<Rightarrow> Inl (Errorf NotFound (NoVersionsFound entry (length ids) (length vers))))"
  using assms
  by (auto simp: getSrclibDataVersionForPathLookback_def Let_def findBase_def
           split: sum.splits prod.splits if_splits option.splits)

lemma lookback_with_base:
  assumes "Path entry \<noteq> ''''"
    and "ListCommits s (lastPathCommitOp entry) = Inr [m]"
    and "ID m \<noteq> CommitID (RepoRev entry)" and "ID m \<noteq> ''''"
    and "ListCommits s (candidatesOp s entry (ID m)) = Inr commits"
  shows "getSrclibDataVersionForPathLookback s entry =
           (let q = [ByRepos [URI (RepoRev entry)], ByCommitIDs (map ID commits @ [ID m])];
                tr = [ListCommitsCall (lastPathCommitOp entry),
                      ListCommitsCall (candidatesOp s entry (ID m)), VersionsCall q]
            in case Versions s q of
                 Inl err \<Rightarrow> (tr, Inl err)
               | Inr vers \<Rightarrow>
                   (case scanCandidates (mkVerMap vers) (map ID commits @ [ID m]) 0 of
                      Some r \<Rightarrow> (tr, Inr r)
                    | None \<Rightarrow> (tr, Inl (Errorf NotFound
                        (NoVersionsFound entry (Suc (length commits)) (length vers))))))"
  using assms
  by (auto simp: getSrclibDataVersionForPathLookback_def findBase_def Let_def candidateCommitIDs_def
           split: sum.splits option.splits)


subsection \<open>The collaborators of the specification\<close>

lemma takeWhile_ID:
  "map (\<lambda>(c, ps). ID c) (takeWhile (\<lambda>(c, ps). ID c \<noteq> b) xs) =
     takeWhile (\<lambda>c. c \<noteq> b) (map (\<lambda>(c, ps). ID c) xs)"
  by (induction xs) auto

lemma fromHead_subset: "set (fromHead log h) \<subseteq> set log"
  by (auto simp: fromHead_def dest: set_dropWhileD)

lemma fromHead_head: "fromHead log h = (c, ps) # rest \<Longrightarrow> ID c = h"
  unfolding fromHead_def using hd_dropWhile[of "\<lambda>(c, ps). ID c \<noteq> h" log]
  by (cases "dropWhile (\<lambda>(c, ps). ID c \<noteq> h) log") auto

lemma boundary_path:
  "\<not> isRoot p \<Longrightarrow>
   boundary log h p =
     (case filter (\<lambda>(c, ps). p \<in> set ps) (fromHead log h) of
        [] \<Rightarrow> None | (c, ps) # _ \<Rightarrow> Some (ID c))"
  by (simp add: boundary_def)

lemma world_lastPath:
  "Path entry \<noteq> '''' \<Longrightarrow>
   ListCommits (worldEnv access resolve flag histories records) (lastPathCommitOp entry) =
     Inr (map fst (take 1 (filter (\<lambda>(c, ps). Path entry \<in> set ps)
            (fromHead (histories (URI (RepoRev entry))) (CommitID (RepoRev entry))))))"
  by (simp add: worldEnv_def hpListCommits_def lastPathCommitOp_def RepoSpec.truncate_def)

lemma world_candidates:
  "base \<noteq> '''' \<Longrightarrow>
   ListCommits (worldEnv access resolve flag histories records)
      (candidatesOp (worldEnv access resolve flag histories records) entry base) =
     Inr (map fst (take (nat (sint (lookbackLimit flag)))
            (takeWhile (\<lambda>(c, ps). ID c \<noteq> base)
               (fromHead (histories (URI (RepoRev entry))) (CommitID (RepoRev entry))))))"
  by (simp add: worldEnv_def hpListCommits_def candidatesOp_def RepoSpec.truncate_def)

lemma world_exact:
  "Versions (worldEnv access resolve flag histories records) (exactQuery rr) = Inr vers \<Longrightarrow>
     \<forall>v \<in> set vers. vCommitID v = CommitID rr \<and> Repo v = URI rr"
  by (auto simp: worldEnv_def vsVersions_def exactQuery_def)

text \<open>In a store that holds each record once, "a record exists exactly at (repo, commit)"
  is "the exact-match query answers with that one record".\<close>

lemma store_exact_record:
  assumes "distinct records" and "\<lparr>Repo = URI rr, vCommitID = CommitID rr\<rparr> \<in> set records"
  shows "vsVersions records (exactQuery rr) = Inr [\<lparr>Repo = URI rr, vCommitID = CommitID rr\<rparr>]"
proof -
  let ?x = "\<lparr>Repo = URI rr, vCommitID = CommitID rr\<rparr>"
  have "filter (\<lambda>v. v = ?x) records = [?x]"
    using assms by (induction records) (auto simp: filter_empty_conv)
  moreover have "(\<lambda>v. \<forall>f \<in> set (exactQuery rr). passes v f) = (\<lambda>v. v = ?x)"
    by (auto simp: exactQuery_def)
  ultimately show ?thesis by (simp add: vsVersions_def)
qed

subsection \<open>Histories with merges\<close>





















subsection \<open>The errors that the resolver makes\<close>

lemma not_single: "length cs \<noteq> 1 \<longleftrightarrow> cs = [] \<or> 1 < length cs"
  by (cases cs) auto

lemma findBase_cases:
  "findBase s entry = (t, b) \<Longrightarrow>
     (Path entry = '''' \<and> t = [] \<and> b = Inr '''') \<or>
     (Path entry \<noteq> '''' \<and> t = [ListCommitsCall (lastPathCommitOp entry)] \<and>
        ((\<exists>err. ListCommits s (lastPathCommitOp entry) = Inl err \<and> b = Inl err) \<or>
         (\<exists>cs. ListCommits s (lastPathCommitOp entry) = Inr cs \<and> length cs \<noteq> 1 \<and>
               b = Inl (Errorf NotFound (NoCommitsForPath (Path entry) (RepoRev entry)))) \<or>
         (\<exists>m. ListCommits s (lastPathCommitOp entry) = Inr [m] \<and>
              ID m = CommitID (RepoRev entry) \<and>
              b = Inl (Errorf NotFound (LastModifiedByHead (RepoRev entry)))) \<or>
         (\<exists>m. ListCommits s (lastPathCommitOp entry) = Inr [m] \<and>
              ID m \<noteq> CommitID (RepoRev entry) \<and> b = Inr (ID m))))"
proof (cases "Path entry = ''''")
  case True
  assume "findBase s entry = (t, b)"
  with True show ?thesis by (simp add: findBase_def)
next
  case False
  assume run: "findBase s entry = (t, b)"
  show ?thesis
  proof (cases "ListCommits s (lastPathCommitOp entry)")
    case (Inl err)
    with run False show ?thesis by (auto simp: findBase_def Let_def)
  next
    case (Inr cs)
    show ?thesis
    proof (cases "length cs = 1")
      case True
      then obtain m where "cs = [m]" by (cases cs) auto
      with run False Inr show ?thesis by (auto simp: findBase_def Let_def split: if_splits)
    next
      case notone: False
      with run False Inr show ?thesis by (auto simp: findBase_def Let_def)
    qed
  qed
qed

lemma lookback_after_base:
  assumes "findBase s entry = (t1, Inr base)"
  shows "getSrclibDataVersionForPathLookback s entry =
           (case ListCommits s (candidatesOp s entry base) of
              Inl err \<Rightarrow> (t1 @ [ListCommitsCall (candidatesOp s entry base)], Inl err)
            | Inr commits \<Rightarrow>
                (let ids = candidateCommitIDs base commits;
                     q = [ByRepos [URI (RepoRev entry)], ByCommitIDs ids];
                     t3 = t1 @ [ListCommitsCall (candidatesOp s entry base), VersionsCall q]
                 in case Versions s q of
                      Inl err \<Rightarrow> (t3, Inl err)
                    | Inr vers \<Rightarrow>
                        (case scanCandidates (mkVerMap vers) ids 0 of
                           Some r \<Rightarrow> (t3, Inr r)
                         | None \<Rightarrow> (t3, Inl (Errorf NotFound
                             (NoVersionsFound entry (length ids) (length vers)))))))"
  using assms
  by (simp add: getSrclibDataVersionForPathLookback_def Let_def split: sum.splits option.splits)

lemma lookback_before_base:
  assumes "findBase s entry = (t1, Inl err)"
  shows "getSrclibDataVersionForPathLookback s entry = (t1, Inl err)"
  using assms by (simp add: getSrclibDataVersionForPathLookback_def)

lemma lookback_made_errors:
  assumes run: "getSrclibDataVersionForPathLookback s entry = (t, Inl err)"
    and ok: "failure s (last t) = None"
  shows "(\<exists>cs. last t = ListCommitsCall (lastPathCommitOp entry) \<and>
               ListCommits s (lastPathCommitOp entry) = Inr cs \<and> (cs = [] \<or> 1 < length cs) \<and>
               err = Errorf NotFound (NoCommitsForPath (Path entry) (RepoRev entry))) \<or>
         (\<exists>m. last t = ListCommitsCall (lastPathCommitOp entry) \<and>
              ListCommits s (lastPathCommitOp entry) = Inr [m] \<and>
              ID m = CommitID (RepoRev entry) \<and>
              err = Errorf NotFound (LastModifiedByHead (RepoRev entry))) \<or>
         (\<exists>ids vers. last t = VersionsCall [ByRepos [URI (RepoRev entry)], ByCommitIDs ids] \<and>
              Versions s [ByRepos [URI (RepoRev entry)], ByCommitIDs ids] = Inr vers \<and>
              (\<forall>c \<in> set ids. c \<notin> vCommitID ` set vers) \<and>
              err = Errorf NotFound (NoVersionsFound entry (length ids) (length vers)))"
proof -
  obtain t1 b where fb: "findBase s entry = (t1, b)" by (cases "findBase s entry")
  show ?thesis
  proof (cases b)
    case (Inl e)
    with fb run have t: "t = t1" and e: "err = e" by (simp_all add: lookback_before_base)
    from findBase_cases[OF fb, unfolded not_single] Inl ok t e show ?thesis
      by auto
  next
    case (Inr base)
    note after = lookback_after_base[OF fb[unfolded Inr]]
    show ?thesis
    proof (cases "ListCommits s (candidatesOp s entry base)")
      case (Inl e)
      with after run ok show ?thesis by auto
    next
      case commits: (Inr commits)
      let ?ids = "candidateCommitIDs base commits"
      let ?q = "[ByRepos [URI (RepoRev entry)], ByCommitIDs ?ids]"
      show ?thesis
      proof (cases "Versions s ?q")
        case (Inl e)
        with after commits run ok show ?thesis by (auto simp: Let_def)
      next
        case vers: (Inr vers)
        with after commits run have none: "scanCandidates (mkVerMap vers) ?ids 0 = None"
          and t: "last t = VersionsCall ?q"
          and e: "err = Errorf NotFound (NoVersionsFound entry (length ?ids) (length vers))"
          by (auto simp: Let_def split: option.splits)
        from none have "\<forall>c \<in> set ?ids. c \<notin> vCommitID ` set vers"
          by (simp add: scanCandidates_None mkVerMap_present)
        with t e vers show ?thesis by blast
      qed
    qed
  qed
qed

lemma lookback_trace:
  "fst (getSrclibDataVersionForPathLookback s entry) \<noteq> [] \<and>
   distinct (fst (getSrclibDataVersionForPathLookback s entry)) \<and>
   VersionsCall (exactQuery rr) \<notin> set (fst (getSrclibDataVersionForPathLookback s entry)) \<and>
   (\<forall>c \<in> set (fst (getSrclibDataVersionForPathLookback s entry)).
      \<forall>uri. c \<noteq> VerifyUserHasReadAccessCall uri) \<and>
   (\<forall>c \<in> set (fst (getSrclibDataVersionForPathLookback s entry)).
      \<forall>r. c \<noteq> resolveRepoRevCall r)"
  by (auto simp: getSrclibDataVersionForPathLookback_def findBase_def Let_def exactQuery_def
                 lastPathCommitOp_def candidatesOp_def
           split: sum.splits prod.splits if_splits option.splits)

section \<open>The claims\<close>

subsection \<open>C1: the result lies between the boundary and the head\<close>




text \<open>
  A history with a merge, for the record: the range from \<open>m\<close> to the head \<open>h\<close> holds
  the side branch \<open>x\<close>, which does not descend from \<open>m\<close>; with the only record at \<open>x\<close>
  the resolver returns \<open>x\<close> for \<open>a.go\<close>. The source (lines 70 to 73) wants a commit equal
  to or a descendant of the last commit that touched the path.
\<close>

lemma merge_returns_side_branch:
  "GetSrclibDataVersionForPath (graphWorld mergeGraph [\<lparr>Repo = ''r'', vCommitID = ''x''\<rparr>])
     \<lparr>RepoRev = atHead, Path = ''a.go''\<rparr> =
   ([VerifyUserHasReadAccessCall ''r'',
     resolveRepoRevCall \<lparr>URI = ''r'', Rev = ''master'', CommitID = ''h''\<rparr>,
     VersionsCall [ByRepoCommitIDs [\<lparr>Repo = ''r'', vCommitID = ''h''\<rparr>]],
     ListCommitsCall \<lparr>opRepo = \<lparr>URI = ''r''\<rparr>,
                      Opt = \<lparr>PerPage = 1, Head = ''h'', Base = '''', optPath = ''a.go''\<rparr>\<rparr>,
     ListCommitsCall \<lparr>opRepo = \<lparr>URI = ''r''\<rparr>,
                      Opt = \<lparr>PerPage = 250, Head = ''h'', Base = ''m'', optPath = ''''\<rparr>\<rparr>,
     VersionsCall [ByRepos [''r''], ByCommitIDs [''h'', ''a'', ''x'', ''m'']]],
    Inr \<lparr>dvCommitID = ''x'', CommitsBehind = 2\<rparr>) \<and>
   lastTouching mergeGraph ''h'' ''a.go'' = Some ''m'' \<and>
   descends mergeGraph ''h'' ''x'' \<and> \<not> descends mergeGraph ''x'' ''m''"
  by code_simp

subsection \<open>C2: an exact record wins\<close>

text \<open>
  Claim C2. Once access is granted and the revision is resolved, the first query is the
  exact-match query for the resolved (repository, commit); and if it answers with the one
  record that exists there, the resolver returns that record's commit with distance 0 and
  asks nothing more, whatever the path and whatever the lookback bound.
\<close>

theorem exact_match_priority:
  assumes "VerifyUserHasReadAccess s (URI (RepoRev entry)) = None"
    and "resolveRepoRev s (RepoRev entry) = Inr rr"
  shows "(\<exists>rest. fst (GetSrclibDataVersionForPath s entry) =
            [VerifyUserHasReadAccessCall (URI (RepoRev entry)),
             resolveRepoRevCall (RepoRev entry), VersionsCall (exactQuery rr)] @ rest) \<and>
         (Versions s (exactQuery rr) = Inr [v] \<longrightarrow>
            GetSrclibDataVersionForPath s entry =
              ([VerifyUserHasReadAccessCall (URI (RepoRev entry)),
                resolveRepoRevCall (RepoRev entry), VersionsCall (exactQuery rr)],
               Inr \<lparr>dvCommitID = vCommitID v, CommitsBehind = 0\<rparr>))"
  using assms
  by (auto simp: GetSrclibDataVersionForPath_def Let_def split: sum.splits prod.splits)

theorem exact_match_priority_witness:
  "GetSrclibDataVersionForPath
     (shortWorld [\<lparr>Repo = ''r'', vCommitID = ''a''\<rparr>, \<lparr>Repo = ''r'', vCommitID = ''h''\<rparr>])
     \<lparr>RepoRev = atHead, Path = ''a.go''\<rparr> =
   ([VerifyUserHasReadAccessCall ''r'', resolveRepoRevCall atHead,
     VersionsCall (exactQuery atHead)],
    Inr \<lparr>dvCommitID = ''h'', CommitsBehind = 0\<rparr>)"
proof -
  let ?s = "shortWorld [\<lparr>Repo = ''r'', vCommitID = ''a''\<rparr>, \<lparr>Repo = ''r'', vCommitID = ''h''\<rparr>]"
  let ?entry = "\<lparr>RepoRev = atHead, Path = ''a.go''\<rparr>"
  have acc: "VerifyUserHasReadAccess ?s (URI (RepoRev ?entry)) = None" by code_simp
  have res: "resolveRepoRev ?s (RepoRev ?entry) = Inr atHead" by code_simp
  have one: "Versions ?s (exactQuery atHead) = Inr [\<lparr>Repo = ''r'', vCommitID = ''h''\<rparr>]"
    by code_simp
  from exact_match_priority[OF acc res, of "\<lparr>Repo = ''r'', vCommitID = ''h''\<rparr>"] one
  show ?thesis by (simp add: atHead_def)
qed

subsection \<open>C3: the root\<close>

text \<open>
  Claim C3, as amended. When the exact-match query does not answer with exactly one
  record: for the path \<open>"."\<close> the resolver returns \<open>NotFound\<close> and asks nothing more, so
  no lookback is performed; for the path \<open>""\<close> it never asks for the history of the
  path, but it does look back: it lists the candidates from the head with no base, asks
  no further listing, and returns what the scan of these candidates finds. The claim as
  written says \<open>NotFound\<close> and no lookback for both spellings of the root.
\<close>

theorem root_restriction_dot_only:
  assumes "VerifyUserHasReadAccess s (URI (RepoRev entry)) = None"
    and "resolveRepoRev s (RepoRev entry) = Inr rr"
    and "Versions s (exactQuery rr) = Inr vers" and "length vers \<noteq> 1"
  shows "(Path entry = ''.'' \<longrightarrow>
            GetSrclibDataVersionForPath s entry =
              ([VerifyUserHasReadAccessCall (URI (RepoRev entry)),
                resolveRepoRevCall (RepoRev entry), VersionsCall (exactQuery rr)],
               Inl (Errorf NotFound (NoVersionForRoot rr)))) \<and>
         (Path entry = '''' \<longrightarrow>
            (\<exists>rest. fst (GetSrclibDataVersionForPath s entry) =
               [VerifyUserHasReadAccessCall (URI (RepoRev entry)),
                resolveRepoRevCall (RepoRev entry), VersionsCall (exactQuery rr),
                ListCommitsCall (candidatesOp s (entry\<lparr>RepoRev := rr\<rparr>) '''')] @ rest \<and>
               (\<forall>op. ListCommitsCall op \<notin> set rest)) \<and>
            (\<forall>commits found.
               ListCommits s (candidatesOp s (entry\<lparr>RepoRev := rr\<rparr>) '''') = Inr commits \<and>
               Versions s [ByRepos [URI rr], ByCommitIDs (map ID commits)] = Inr found \<longrightarrow>
               snd (GetSrclibDataVersionForPath s entry) =
                 (case scanCandidates (mkVerMap found) (map ID commits) 0 of
                    Some r \<Rightarrow> Inr r
                  | None \<Rightarrow> Inl (Errorf NotFound
                      (NoVersionsFound (entry\<lparr>RepoRev := rr\<rparr>) (length commits) (length found))))))"
  using assms
  by (auto simp: resolver_defs candidateCommitIDs_def
           split: sum.splits prod.splits if_splits option.splits)

theorem root_restriction_dot_only_witness:
  "GetSrclibDataVersionForPath (shortWorld [\<lparr>Repo = ''r'', vCommitID = ''b''\<rparr>])
     \<lparr>RepoRev = atHead, Path = ''.''\<rparr> =
   ([VerifyUserHasReadAccessCall ''r'', resolveRepoRevCall atHead,
     VersionsCall (exactQuery atHead)],
    Inl (Errorf NotFound (NoVersionForRoot atHead)))"
proof -
  let ?s = "shortWorld [\<lparr>Repo = ''r'', vCommitID = ''b''\<rparr>]"
  let ?entry = "\<lparr>RepoRev = atHead, Path = ''.''\<rparr>"
  have acc: "VerifyUserHasReadAccess ?s (URI (RepoRev ?entry)) = None" by code_simp
  have res: "resolveRepoRev ?s (RepoRev ?entry) = Inr atHead" by code_simp
  have none: "Versions ?s (exactQuery atHead) = Inr []" by code_simp
  have len: "length ([] :: Version list) \<noteq> 1" by simp
  from root_restriction_dot_only[OF acc res none len]
  show ?thesis by (simp add: atHead_def)
qed

text \<open>
  The empty path with no record at the head \<open>h\<close> and one at \<open>b\<close>: the resolver lists
  the candidates, asks the store about them and returns \<open>b\<close>, not \<open>NotFound\<close>.
\<close>

theorem empty_path_looks_back:
  "Versions (shortWorld [\<lparr>Repo = ''r'', vCommitID = ''b''\<rparr>]) (exactQuery atHead) = Inr [] \<and>
   GetSrclibDataVersionForPath (shortWorld [\<lparr>Repo = ''r'', vCommitID = ''b''\<rparr>])
     \<lparr>RepoRev = atHead, Path = ''''\<rparr> =
   ([VerifyUserHasReadAccessCall ''r'',
     resolveRepoRevCall \<lparr>URI = ''r'', Rev = ''master'', CommitID = ''h''\<rparr>,
     VersionsCall [ByRepoCommitIDs [\<lparr>Repo = ''r'', vCommitID = ''h''\<rparr>]],
     ListCommitsCall \<lparr>opRepo = \<lparr>URI = ''r''\<rparr>,
                      Opt = \<lparr>PerPage = 250, Head = ''h'', Base = '''', optPath = ''''\<rparr>\<rparr>,
     VersionsCall [ByRepos [''r''], ByCommitIDs [''h'', ''a'', ''b'', ''m'', ''z'']]],
    Inr \<lparr>dvCommitID = ''b'', CommitsBehind = 2\<rparr>)"
  by code_simp

subsection \<open>C4: the nearest candidate wins\<close>

text \<open>
  Claim C4. When the lookback search has reached its batch query, for the candidate
  sequence \<open>ids\<close> and with the records \<open>vers\<close> as its answer: if no candidate has a
  record the search fails with \<open>NotFound\<close>; otherwise the candidates are taken from the
  head of the sequence on, and the first one that has a record is returned, so that of
  several candidates with records the one nearest to the head wins. The distance
  reported is \<open>int32(i)\<close> for its zero-based position \<open>i\<close>, which is \<open>i\<close> itself for
  every position below \<open>2^31\<close>, that is, for every listing that respects the page size
  it was asked for.
\<close>

theorem nearest_candidate_wins:
  assumes "getSrclibDataVersionForPathLookback s entry = (tr, res)"
    and "tr \<noteq> []" and "last tr = VersionsCall [ByRepos rs, ByCommitIDs ids]"
    and "Versions s [ByRepos rs, ByCommitIDs ids] = Inr vers"
  shows "((\<forall>c \<in> set ids. c \<notin> vCommitID ` set vers) \<longrightarrow>
            res = Inl (Errorf NotFound (NoVersionsFound entry (length ids) (length vers)))) \<and>
         (\<forall>i < length ids.
            ids ! i \<in> vCommitID ` set vers \<and> (\<forall>j<i. ids ! j \<notin> vCommitID ` set vers) \<longrightarrow>
            res = Inr \<lparr>dvCommitID = ids ! i, CommitsBehind = word_of_nat i\<rparr> \<and>
            (i < 2 ^ 31 \<longrightarrow> sint (word_of_nat i :: int32) = int i))"
proof (intro conjI impI allI)
  assume "\<forall>c \<in> set ids. c \<notin> vCommitID ` set vers"
  then have "scanCandidates (mkVerMap vers) ids 0 = None"
    using mkVerMap_present[of vers] by (auto simp add: scanCandidates_None)
  then show "res = Inl (Errorf NotFound (NoVersionsFound entry (length ids) (length vers)))"
    using lookback_at_scan[OF assms] by simp
next
  fix i assume i: "i < length ids"
    and h: "ids ! i \<in> vCommitID ` set vers \<and> (\<forall>j<i. ids ! j \<notin> vCommitID ` set vers)"
  have "scanCandidates (mkVerMap vers) ids 0 =
          Some \<lparr>dvCommitID = ids ! i, CommitsBehind = word_of_nat (0 + i)\<rparr>"
    using i h mkVerMap_present[of vers] by (intro scanCandidates_first) auto
  then show "res = Inr \<lparr>dvCommitID = ids ! i, CommitsBehind = word_of_nat i\<rparr>"
    using lookback_at_scan[OF assms] by simp
next
  fix i :: nat assume "i < 2 ^ 31"
  then show "sint (word_of_nat i :: int32) = int i"
    by (simp add: signed_of_nat signed_take_bit_int_eq_self)
qed

text \<open>
  Records at \<open>m\<close> and at \<open>a\<close>, the candidates \<open>h\<close>, \<open>a\<close>, \<open>b\<close>, \<open>m\<close>: the nearer one,
  \<open>a\<close> at position 1, is returned.
\<close>

theorem nearest_candidate_wins_witness:
  "Versions (shortWorld [\<lparr>Repo = ''r'', vCommitID = ''m''\<rparr>, \<lparr>Repo = ''r'', vCommitID = ''a''\<rparr>])
     [ByRepos [''r''], ByCommitIDs [''h'', ''a'', ''b'', ''m'']] =
     Inr [\<lparr>Repo = ''r'', vCommitID = ''m''\<rparr>, \<lparr>Repo = ''r'', vCommitID = ''a''\<rparr>] \<and>
   snd (getSrclibDataVersionForPathLookback
          (shortWorld [\<lparr>Repo = ''r'', vCommitID = ''m''\<rparr>, \<lparr>Repo = ''r'', vCommitID = ''a''\<rparr>])
          \<lparr>RepoRev = atHead, Path = ''a.go''\<rparr>) =
     Inr \<lparr>dvCommitID = [''h'', ''a'', ''b'', ''m''] ! 1, CommitsBehind = word_of_nat 1\<rparr> \<and>
   sint (word_of_nat 1 :: int32) = int 1"
proof -
  let ?s = "shortWorld [\<lparr>Repo = ''r'', vCommitID = ''m''\<rparr>, \<lparr>Repo = ''r'', vCommitID = ''a''\<rparr>]"
  let ?entry = "\<lparr>RepoRev = atHead, Path = ''a.go''\<rparr>"
  let ?ids = "[''h'', ''a'', ''b'', ''m'']"
  let ?vers = "[\<lparr>Repo = ''r'', vCommitID = ''m''\<rparr>, \<lparr>Repo = ''r'', vCommitID = ''a''\<rparr>]"
  let ?tr = "fst (getSrclibDataVersionForPathLookback ?s ?entry)"
  let ?res = "snd (getSrclibDataVersionForPathLookback ?s ?entry)"
  have run: "getSrclibDataVersionForPathLookback ?s ?entry = (?tr, ?res)" by simp
  have tr: "?tr = [ListCommitsCall (lastPathCommitOp ?entry),
                   ListCommitsCall (candidatesOp ?s ?entry ''m''),
                   VersionsCall [ByRepos [''r''], ByCommitIDs ?ids]]"
    by code_simp
  have ne: "?tr \<noteq> []" and last: "last ?tr = VersionsCall [ByRepos [''r''], ByCommitIDs ?ids]"
    by (simp_all add: tr)
  have vers: "Versions ?s [ByRepos [''r''], ByCommitIDs ?ids] = Inr ?vers" by code_simp
  have first: "(1::nat) < length ?ids \<and> ?ids ! 1 \<in> vCommitID ` set ?vers \<and>
               (\<forall>j<1. ?ids ! j \<notin> vCommitID ` set ?vers) \<and> (1::nat) < 2 ^ 31"
    by simp
  from nearest_candidate_wins[OF run ne last vers] first vers
  show ?thesis by blast
qed

subsection \<open>C5: the boundary is always a candidate\<close>

text \<open>
  Claim C5. In a lookback for a non-empty path whose last modifying commit \<open>M\<close> is not
  the head, whatever list the range query answers with (cut at the lookback bound or
  not), the candidates sent to the store are the listed commits followed by \<open>M\<close>; so
  \<open>M\<close> is always checked: if \<open>M\<close> has a record the search succeeds, and if no listed
  commit has one the result is \<open>M\<close>, at the position after the last listed commit.
  Commit ids are content hashes, hence \<open>M\<close> is not the empty string.
\<close>

theorem boundary_always_appended:
  assumes "Path entry \<noteq> ''''"
    and "ListCommits s (lastPathCommitOp entry) = Inr [m]"
    and "ID m \<noteq> CommitID (RepoRev entry)" and "ID m \<noteq> ''''"
    and "ListCommits s (candidatesOp s entry (ID m)) = Inr commits"
  shows "fst (getSrclibDataVersionForPathLookback s entry) =
           [ListCommitsCall (lastPathCommitOp entry),
            ListCommitsCall (candidatesOp s entry (ID m)),
            VersionsCall [ByRepos [URI (RepoRev entry)], ByCommitIDs (map ID commits @ [ID m])]] \<and>
         (\<forall>vers. Versions s [ByRepos [URI (RepoRev entry)], ByCommitIDs (map ID commits @ [ID m])]
                    = Inr vers \<and> ID m \<in> vCommitID ` set vers \<longrightarrow>
            (\<exists>r. snd (getSrclibDataVersionForPathLookback s entry) = Inr r) \<and>
            ((\<forall>c \<in> set commits. ID c \<notin> vCommitID ` set vers) \<longrightarrow>
               snd (getSrclibDataVersionForPathLookback s entry) =
                 Inr \<lparr>dvCommitID = ID m, CommitsBehind = word_of_nat (length commits)\<rparr>))"
proof (intro conjI allI impI)
  show "fst (getSrclibDataVersionForPathLookback s entry) =
           [ListCommitsCall (lastPathCommitOp entry),
            ListCommitsCall (candidatesOp s entry (ID m)),
            VersionsCall [ByRepos [URI (RepoRev entry)], ByCommitIDs (map ID commits @ [ID m])]]"
    by (simp add: lookback_with_base[OF assms] Let_def split: sum.splits option.splits)
next
  fix vers
  assume v: "Versions s [ByRepos [URI (RepoRev entry)], ByCommitIDs (map ID commits @ [ID m])]
               = Inr vers \<and> ID m \<in> vCommitID ` set vers"
  then have "mkVerMap vers (ID m) \<noteq> None" by (simp add: mkVerMap_present)
  then have "scanCandidates (mkVerMap vers) (map ID commits @ [ID m]) 0 \<noteq> None"
    by (simp add: scanCandidates_None)
  then show "\<exists>r. snd (getSrclibDataVersionForPathLookback s entry) = Inr r"
    using v by (auto simp add: lookback_with_base[OF assms] Let_def)
  assume "\<forall>c \<in> set commits. ID c \<notin> vCommitID ` set vers"
  then have "\<forall>c \<in> set (map ID commits). c \<notin> vCommitID ` set vers" by simp
  with v have "scanCandidates (mkVerMap vers) (map ID commits @ [ID m]) 0 =
          Some \<lparr>dvCommitID = ID m, CommitsBehind = word_of_nat (length (map ID commits))\<rparr>"
    by (intro scan_boundary_only) simp_all
  then show "snd (getSrclibDataVersionForPathLookback s entry) =
      Inr \<lparr>dvCommitID = ID m, CommitsBehind = word_of_nat (length commits)\<rparr>"
    using v by (simp add: lookback_with_base[OF assms] Let_def)
qed

text \<open>
  The only record is at \<open>m\<close>, the last commit that modified \<open>a.go\<close>: the candidates are
  the listed \<open>h\<close>, \<open>a\<close>, \<open>b\<close> and then \<open>m\<close>, which is found at position 3.
\<close>

theorem boundary_always_appended_witness:
  "fst (getSrclibDataVersionForPathLookback (shortWorld [\<lparr>Repo = ''r'', vCommitID = ''m''\<rparr>])
          \<lparr>RepoRev = atHead, Path = ''a.go''\<rparr>) =
     [ListCommitsCall (lastPathCommitOp \<lparr>RepoRev = atHead, Path = ''a.go''\<rparr>),
      ListCommitsCall (candidatesOp (shortWorld [\<lparr>Repo = ''r'', vCommitID = ''m''\<rparr>])
                         \<lparr>RepoRev = atHead, Path = ''a.go''\<rparr> ''m''),
      VersionsCall [ByRepos [''r''], ByCommitIDs [''h'', ''a'', ''b'', ''m'']]] \<and>
   snd (getSrclibDataVersionForPathLookback (shortWorld [\<lparr>Repo = ''r'', vCommitID = ''m''\<rparr>])
          \<lparr>RepoRev = atHead, Path = ''a.go''\<rparr>) =
     Inr \<lparr>dvCommitID = ''m'', CommitsBehind = 3\<rparr>"
proof -
  let ?s = "shortWorld [\<lparr>Repo = ''r'', vCommitID = ''m''\<rparr>]"
  let ?entry = "\<lparr>RepoRev = atHead, Path = ''a.go''\<rparr>"
  let ?m = "\<lparr>ID = ''m''\<rparr>"
  let ?commits = "[\<lparr>ID = ''h''\<rparr>, \<lparr>ID = ''a''\<rparr>, \<lparr>ID = ''b''\<rparr>]"
  have path: "Path ?entry \<noteq> ''''" by simp
  have last: "ListCommits ?s (lastPathCommitOp ?entry) = Inr [?m]" by code_simp
  have nothead: "ID ?m \<noteq> CommitID (RepoRev ?entry)" by (simp add: atHead_def)
  have idm: "ID ?m \<noteq> ''''" by simp
  have listing: "ListCommits ?s (candidatesOp ?s ?entry (ID ?m)) = Inr ?commits" by code_simp
  have vers: "Versions ?s [ByRepos [URI (RepoRev ?entry)], ByCommitIDs (map ID ?commits @ [ID ?m])]
                = Inr [\<lparr>Repo = ''r'', vCommitID = ''m''\<rparr>]"
    by code_simp
  have only: "ID ?m \<in> vCommitID ` set [\<lparr>Repo = ''r'', vCommitID = ''m''\<rparr>] \<and>
              (\<forall>c \<in> set ?commits. ID c \<notin> vCommitID ` set [\<lparr>Repo = ''r'', vCommitID = ''m''\<rparr>])"
    by simp
  from boundary_always_appended[OF path last nothead idm listing] vers only
  show ?thesis by (simp add: atHead_def)
qed

subsection \<open>C6: the distance of a boundary beyond the lookback bound\<close>

text \<open>
  Claim C6, as amended. Over the history and the store that the specification describes:
  when the boundary commit \<open>M\<close> of a path that is not the root is further from the head
  than the lookback bound and the only record of the repository is at \<open>M\<close>, the result
  is \<open>M\<close>, and the distance reported is the position of \<open>M\<close> in the truncated candidate
  sequence, which is the lookback bound itself. The claim as written says that the true
  ancestry distance is reported.
\<close>

theorem truncated_boundary_reports_position:
  assumes acc: "access (URI (RepoRev entry)) = None"
    and res: "resolve (RepoRev entry) = Inr rr"
    and path: "\<not> isRoot (Path entry)"
    and bnd: "boundary (histories (URI rr)) (CommitID rr) (Path entry) = Some M"
    and idm: "M \<noteq> ''''"
    and far: "nat (sint (lookbackLimit flag)) < ancestryDistance (histories (URI rr)) (CommitID rr) M"
    and only: "vCommitID ` {v \<in> set records. Repo v = URI rr} = {M}"
  shows "snd (GetSrclibDataVersionForPath (worldEnv access resolve flag histories records) entry) =
           Inr \<lparr>dvCommitID = M, CommitsBehind = lookbackLimit flag\<rparr>"
proof -
  let ?w = "worldEnv access resolve flag histories records"
  let ?e = "entry\<lparr>RepoRev := rr\<rparr>"
  let ?log = "histories (URI rr)"
  let ?h = "CommitID rr"
  let ?L = "nat (sint (lookbackLimit flag))"
  let ?between = "takeWhile (\<lambda>(c, ps). ID c \<noteq> M) (fromHead ?log ?h)"
  let ?touching = "filter (\<lambda>(c, ps). Path entry \<in> set ps) (fromHead ?log ?h)"
  from path have ne: "Path entry \<noteq> ''''" and notdot: "Path entry \<noteq> ''.''"
    by (simp_all add: isRoot_def)
  have len_between: "length ?between = ancestryDistance ?log ?h M"
    unfolding ancestryDistance_def takeWhile_ID[symmetric] by simp
  \<comment> \<open>the head is not the boundary\<close>
  from far len_between obtain c ps rest where fh: "fromHead ?log ?h = (c, ps) # rest"
    by (cases "fromHead ?log ?h") auto
  with far len_between have "ID c \<noteq> M" by (auto split: if_splits)
  with fromHead_head[OF fh] have hm: "M \<noteq> ?h" by simp
  \<comment> \<open>so there is no exact record\<close>
  have exact: "Versions ?w (exactQuery rr) = Inr []"
    using only hm by (auto simp: worldEnv_def vsVersions_def exactQuery_def filter_empty_conv)
  \<comment> \<open>the last commit that touched the path is the boundary\<close>
  from bnd obtain m mps mrest where touching: "?touching = (m, mps) # mrest" and m: "ID m = M"
    by (auto simp: boundary_path[OF path] split: list.splits)
  have last: "ListCommits ?w (lastPathCommitOp ?e) = Inr [m]"
    using ne touching by (simp add: world_lastPath)
  \<comment> \<open>the listing is cut at the limit\<close>
  let ?commits = "map fst (take ?L ?between)"
  have listing: "ListCommits ?w (candidatesOp ?w ?e (ID m)) = Inr ?commits"
    using idm m world_candidates[of "ID m" access resolve flag histories records ?e] by simp
  have len: "length ?commits = ?L" using far len_between by simp
  \<comment> \<open>the batch query finds the record of the boundary and no other\<close>
  let ?q = "[ByRepos [URI rr], ByCommitIDs (map ID ?commits @ [ID m])]"
  obtain vers where vers: "Versions ?w ?q = Inr vers"
    and vers_def: "vers = filter (\<lambda>v. \<forall>f \<in> set ?q. passes v f) records"
    by (simp add: worldEnv_def vsVersions_def)
  from only have all_m: "\<forall>v \<in> set records. Repo v = URI rr \<longrightarrow> vCommitID v = M"
    by blast
  from only obtain v0 where v0: "v0 \<in> set records" "Repo v0 = URI rr" "vCommitID v0 = M"
    by (metis (mono_tags, lifting) imageE mem_Collect_eq singletonI)
  then have "v0 \<in> set vers" unfolding vers_def using m by simp
  with v0 m have at_m: "ID m \<in> vCommitID ` set vers" by force
  have others: "\<forall>v \<in> set vers. vCommitID v = M"
    unfolding vers_def using all_m by simp
  have "\<forall>x \<in> set ?between. ID (fst x) \<noteq> M"
    by (auto dest: set_takeWhileD)
  then have "\<forall>x \<in> set (take ?L ?between). ID (fst x) \<noteq> M"
    by (auto dest: in_set_takeD)
  then have none: "\<forall>c \<in> set (map ID ?commits). c \<notin> vCommitID ` set vers"
    using others by auto
  have scan: "scanCandidates (mkVerMap vers) (map ID ?commits @ [ID m]) 0 =
                Some \<lparr>dvCommitID = ID m, CommitsBehind = word_of_nat (length (map ID ?commits))\<rparr>"
    by (rule scan_boundary_only[OF at_m none])
  have "snd (getSrclibDataVersionForPathLookback ?w ?e) =
          Inr \<lparr>dvCommitID = M, CommitsBehind = lookbackLimit flag\<rparr>"
    using lookback_with_base[of ?e ?w m ?commits] ne last hm listing idm m vers scan len
    by (simp add: Let_def lookbackLimit_word)
  moreover have "VerifyUserHasReadAccess ?w (URI (RepoRev entry)) = None"
    and "resolveRepoRev ?w (RepoRev entry) = Inr rr"
    using acc res by (simp_all add: worldEnv_def)
  ultimately show ?thesis
    using exact notdot resolver_falls_through[of ?w entry rr "[]"] by simp
qed

text \<open>
  With the smallest lookback bound, 250: \<open>a.go\<close> was last modified by \<open>qe\<close>, 260 commits
  behind the head \<open>aa\<close>, and the only record is at \<open>qe\<close>.
\<close>

theorem truncated_boundary_reports_position_witness:
  "snd (GetSrclibDataVersionForPath longWorld \<lparr>RepoRev = atLongHead, Path = ''a.go''\<rparr>) =
     Inr \<lparr>dvCommitID = ''qe'', CommitsBehind = lookbackLimit 0\<rparr>"
proof -
  let ?entry = "\<lparr>RepoRev = atLongHead, Path = ''a.go''\<rparr>"
  let ?records = "[\<lparr>Repo = ''r'', vCommitID = ''qe''\<rparr>]"
  have acc: "grant (URI (RepoRev ?entry)) = None" by (simp add: grant_def)
  have res: "resolved (RepoRev ?entry) = Inr atLongHead" by (simp add: resolved_def)
  have path: "\<not> isRoot (Path ?entry)" by (simp add: isRoot_def)
  have bnd: "boundary ((\<lambda>uri. longHistory) (URI atLongHead)) (CommitID atLongHead) (Path ?entry)
               = Some ''qe''"
    by code_simp
  have idm: "''qe'' \<noteq> ''''" by simp
  have dist: "ancestryDistance longHistory ''aa'' ''qe'' = 260" by code_simp
  have far: "nat (sint (lookbackLimit 0)) <
               ancestryDistance ((\<lambda>uri. longHistory) (URI atLongHead)) (CommitID atLongHead) ''qe''"
    by (simp add: dist atLongHead_def lookbackLimit_def)
  have only: "vCommitID ` {v \<in> set ?records. Repo v = URI atLongHead} = {''qe''}"
    by (auto simp: atLongHead_def)
  from truncated_boundary_reports_position
         [where access = grant and resolve = resolved and histories = "\<lambda>uri. longHistory",
          OF acc res path bnd idm far only]
  show ?thesis by (simp add: longWorld_def)
qed

text \<open>
  The same resolution evaluated: the distance reported is 250, the true distance of
  \<open>qe\<close> from the head is 260.
\<close>

theorem truncated_boundary_distance_understated:
  "snd (GetSrclibDataVersionForPath longWorld \<lparr>RepoRev = atLongHead, Path = ''a.go''\<rparr>) =
     Inr \<lparr>dvCommitID = ''qe'', CommitsBehind = 250\<rparr> \<and>
   boundary longHistory ''aa'' ''a.go'' = Some ''qe'' \<and>
   ancestryDistance longHistory ''aa'' ''qe'' = 260"
  by code_simp

subsection \<open>C7: the head is the boundary\<close>

text \<open>
  Claim C7. When no exact record was found and the single commit that the history of a
  path other than the root leads to is the head itself, the resolution fails with
  \<open>NotFound\<close> at once: after the query for the history of the path it issues neither the
  range query for the candidates nor the batch query to the store.
\<close>

theorem self_boundary_short_circuit:
  assumes "VerifyUserHasReadAccess s (URI (RepoRev entry)) = None"
    and "resolveRepoRev s (RepoRev entry) = Inr rr"
    and "Versions s (exactQuery rr) = Inr vers" and "length vers \<noteq> 1"
    and "Path entry \<noteq> ''''" and "Path entry \<noteq> ''.''"
    and "ListCommits s (lastPathCommitOp (entry\<lparr>RepoRev := rr\<rparr>)) = Inr [m]"
    and "ID m = CommitID rr"
  shows "GetSrclibDataVersionForPath s entry =
           ([VerifyUserHasReadAccessCall (URI (RepoRev entry)),
             resolveRepoRevCall (RepoRev entry), VersionsCall (exactQuery rr),
             ListCommitsCall (lastPathCommitOp (entry\<lparr>RepoRev := rr\<rparr>))],
            Inl (Errorf NotFound (LastModifiedByHead rr)))"
  using assms
  by (auto simp: resolver_defs split: sum.splits prod.splits)

text \<open>\<open>README\<close> was last modified by the head \<open>h\<close>, and the only record is at \<open>b\<close>.\<close>

theorem self_boundary_short_circuit_witness:
  "GetSrclibDataVersionForPath (shortWorld [\<lparr>Repo = ''r'', vCommitID = ''b''\<rparr>])
     \<lparr>RepoRev = atHead, Path = ''README''\<rparr> =
   ([VerifyUserHasReadAccessCall ''r'', resolveRepoRevCall atHead,
     VersionsCall (exactQuery atHead),
     ListCommitsCall (lastPathCommitOp \<lparr>RepoRev = atHead, Path = ''README''\<rparr>)],
    Inl (Errorf NotFound (LastModifiedByHead atHead)))"
proof -
  let ?s = "shortWorld [\<lparr>Repo = ''r'', vCommitID = ''b''\<rparr>]"
  let ?entry = "\<lparr>RepoRev = atHead, Path = ''README''\<rparr>"
  have acc: "VerifyUserHasReadAccess ?s (URI (RepoRev ?entry)) = None" by code_simp
  have res: "resolveRepoRev ?s (RepoRev ?entry) = Inr atHead" by code_simp
  have none: "Versions ?s (exactQuery atHead) = Inr []" by code_simp
  have len: "length ([] :: Version list) \<noteq> 1" by simp
  have path: "Path ?entry \<noteq> ''''" "Path ?entry \<noteq> ''.''" by simp_all
  have last: "ListCommits ?s (lastPathCommitOp (?entry\<lparr>RepoRev := atHead\<rparr>)) = Inr [\<lparr>ID = ''h''\<rparr>]"
    by code_simp
  have same: "ID \<lparr>ID = ''h''\<rparr> = CommitID atHead" by (simp add: atHead_def)
  from self_boundary_short_circuit[OF acc res none len path last same]
  show ?thesis by (simp add: atHead_def)
qed

subsection \<open>C8: the lookback bound\<close>

text \<open>
  Claim C8. The bound is the larger of 250 and the configured cache size \<open>v\<close>, read as
  signed 32-bit numbers: it is \<open>v\<close> when \<open>v > 250\<close> and 250 otherwise. It is the page
  size of every listing of candidates, that is, of every listing the resolver asks for
  without a path. And the listing of candidates is asked for with that page size
  whenever the resolution gets as far: when there is no exact record and the path is
  empty, or the path is neither empty nor \<open>"."\<close> and its last modifying commit is not
  the head.
\<close>

theorem lookback_bound_is_max:
  "sint (lookbackLimit v) = max 250 (sint v) \<and>
   lookbackLimit v = (if 250 < sint v then v else 250) \<and>
   (\<forall>op. ListCommitsCall op \<in> set (fst (GetSrclibDataVersionForPath s entry)) \<and>
         optPath (Opt op) = '''' \<longrightarrow>
         PerPage (Opt op) = lookbackLimit (CommitLogCacheSize s)) \<and>
   (\<forall>rr vers.
      VerifyUserHasReadAccess s (URI (RepoRev entry)) = None \<and>
      resolveRepoRev s (RepoRev entry) = Inr rr \<and>
      Versions s (exactQuery rr) = Inr vers \<and> length vers \<noteq> 1 \<and> Path entry = '''' \<longrightarrow>
      (\<exists>rest. fst (GetSrclibDataVersionForPath s entry) =
         [VerifyUserHasReadAccessCall (URI (RepoRev entry)),
          resolveRepoRevCall (RepoRev entry), VersionsCall (exactQuery rr),
          ListCommitsCall
            \<lparr>opRepo = \<lparr>URI = URI rr\<rparr>,
             Opt = \<lparr>PerPage = lookbackLimit (CommitLogCacheSize s),
                     Head = CommitID rr, Base = '''', optPath = ''''\<rparr>\<rparr>] @ rest)) \<and>
   (\<forall>rr vers m.
      VerifyUserHasReadAccess s (URI (RepoRev entry)) = None \<and>
      resolveRepoRev s (RepoRev entry) = Inr rr \<and>
      Versions s (exactQuery rr) = Inr vers \<and> length vers \<noteq> 1 \<and>
      Path entry \<noteq> '''' \<and> Path entry \<noteq> ''.'' \<and>
      ListCommits s (lastPathCommitOp (entry\<lparr>RepoRev := rr\<rparr>)) = Inr [m] \<and>
      ID m \<noteq> CommitID rr \<longrightarrow>
      (\<exists>rest. fst (GetSrclibDataVersionForPath s entry) =
         [VerifyUserHasReadAccessCall (URI (RepoRev entry)),
          resolveRepoRevCall (RepoRev entry), VersionsCall (exactQuery rr),
          ListCommitsCall (lastPathCommitOp (entry\<lparr>RepoRev := rr\<rparr>)),
          ListCommitsCall
            \<lparr>opRepo = \<lparr>URI = URI rr\<rparr>,
             Opt = \<lparr>PerPage = lookbackLimit (CommitLogCacheSize s),
                     Head = CommitID rr, Base = ID m, optPath = ''''\<rparr>\<rparr>] @ rest))"
  (is "?P1 \<and> ?P2 \<and> ?P3 \<and> ?P4 \<and> ?P5")
proof -
  have p1: ?P1 by (rule lookbackLimit_sint)
  have p2: ?P2 by (simp add: lookbackLimit_def word_sless_alt)
  have p3: ?P3 using listing_page_size by blast
  have p4: ?P4
  proof (intro allI impI, elim conjE)
    fix rr vers
    assume acc: "VerifyUserHasReadAccess s (URI (RepoRev entry)) = None"
      and res: "resolveRepoRev s (RepoRev entry) = Inr rr"
      and vers: "Versions s (exactQuery rr) = Inr vers" and notone: "length vers \<noteq> 1"
      and path: "Path entry = ''''"
    let ?e = "entry\<lparr>RepoRev := rr\<rparr>"
    from path have notdot: "Path entry \<noteq> ''.''" by simp
    have fb: "findBase s ?e = ([], Inr '''')" using path by (simp add: findBase_def)
    have "\<exists>rest. fst (getSrclibDataVersionForPathLookback s ?e) =
            ListCommitsCall (candidatesOp s ?e '''') # rest"
      by (simp add: lookback_after_base[OF fb] Let_def split: sum.splits option.splits)
    then show "\<exists>rest. fst (GetSrclibDataVersionForPath s entry) =
         [VerifyUserHasReadAccessCall (URI (RepoRev entry)),
          resolveRepoRevCall (RepoRev entry), VersionsCall (exactQuery rr),
          ListCommitsCall
            \<lparr>opRepo = \<lparr>URI = URI rr\<rparr>,
             Opt = \<lparr>PerPage = lookbackLimit (CommitLogCacheSize s),
                     Head = CommitID rr, Base = '''', optPath = ''''\<rparr>\<rparr>] @ rest"
      by (auto simp: resolver_falls_through[OF acc res vers notone notdot]
                     candidatesOp_def RepoSpec.truncate_def)
  qed
  have p5: ?P5
  proof (intro allI impI, elim conjE)
    fix rr vers m
    assume acc: "VerifyUserHasReadAccess s (URI (RepoRev entry)) = None"
      and res: "resolveRepoRev s (RepoRev entry) = Inr rr"
      and vers: "Versions s (exactQuery rr) = Inr vers" and notone: "length vers \<noteq> 1"
      and path: "Path entry \<noteq> ''''" and notdot: "Path entry \<noteq> ''.''"
      and last: "ListCommits s (lastPathCommitOp (entry\<lparr>RepoRev := rr\<rparr>)) = Inr [m]"
      and nothead: "ID m \<noteq> CommitID rr"
    let ?e = "entry\<lparr>RepoRev := rr\<rparr>"
    have fb: "findBase s ?e = ([ListCommitsCall (lastPathCommitOp ?e)], Inr (ID m))"
      using path last nothead by (simp add: findBase_def Let_def)
    have "\<exists>rest. fst (getSrclibDataVersionForPathLookback s ?e) =
            ListCommitsCall (lastPathCommitOp ?e) # ListCommitsCall (candidatesOp s ?e (ID m)) # rest"
      by (simp add: lookback_after_base[OF fb] Let_def split: sum.splits option.splits)
    then show "\<exists>rest. fst (GetSrclibDataVersionForPath s entry) =
         [VerifyUserHasReadAccessCall (URI (RepoRev entry)),
          resolveRepoRevCall (RepoRev entry), VersionsCall (exactQuery rr),
          ListCommitsCall (lastPathCommitOp (entry\<lparr>RepoRev := rr\<rparr>)),
          ListCommitsCall
            \<lparr>opRepo = \<lparr>URI = URI rr\<rparr>,
             Opt = \<lparr>PerPage = lookbackLimit (CommitLogCacheSize s),
                     Head = CommitID rr, Base = ID m, optPath = ''''\<rparr>\<rparr>] @ rest"
      by (auto simp: resolver_falls_through[OF acc res vers notone notdot]
                     candidatesOp_def RepoSpec.truncate_def)
  qed
  show ?thesis by (rule conjI[OF p1 conjI[OF p2 conjI[OF p3 conjI[OF p4 p5]]]])
qed

text \<open>
  A cache size of 1000 raises the bound, one of 100 does not lower it, and a negative
  one does not either; under a cache size of 1000 the candidates for \<open>a.go\<close> are
  listed with a page size of 1000.
\<close>

theorem lookback_bound_is_max_witness:
  "lookbackLimit 1000 = 1000 \<and> lookbackLimit 100 = 250 \<and> lookbackLimit (- 1) = 250 \<and>
   ListCommitsCall \<lparr>opRepo = \<lparr>URI = ''r''\<rparr>,
                    Opt = \<lparr>PerPage = 1000, Head = ''h'', Base = ''m'', optPath = ''''\<rparr>\<rparr>
     \<in> set (fst (GetSrclibDataVersionForPath cachedWorld \<lparr>RepoRev = atHead, Path = ''a.go''\<rparr>))"
proof -
  let ?entry = "\<lparr>RepoRev = atHead, Path = ''a.go''\<rparr>"
  note all = lookback_bound_is_max[of _ cachedWorld ?entry]
  from all[of 1000] have a: "lookbackLimit 1000 = 1000" by simp
  from all[of 100] have b: "lookbackLimit 100 = 250" by simp
  from all[of "- 1"] have c: "lookbackLimit (- 1) = 250" by simp
  have acc: "VerifyUserHasReadAccess cachedWorld (URI (RepoRev ?entry)) = None" by code_simp
  have res: "resolveRepoRev cachedWorld (RepoRev ?entry) = Inr atHead" by code_simp
  have none: "Versions cachedWorld (exactQuery atHead) = Inr []" by code_simp
  have len: "length ([] :: Version list) \<noteq> 1" by simp
  have path: "Path ?entry \<noteq> ''''" "Path ?entry \<noteq> ''.''" by simp_all
  have last: "ListCommits cachedWorld (lastPathCommitOp (?entry\<lparr>RepoRev := atHead\<rparr>)) =
                Inr [\<lparr>ID = ''m''\<rparr>]"
    by code_simp
  have nothead: "ID \<lparr>ID = ''m''\<rparr> \<noteq> CommitID atHead" by (simp add: atHead_def)
  have flag: "CommitLogCacheSize cachedWorld = 1000" by code_simp
  note issued = all[of 0, THEN conjunct2, THEN conjunct2, THEN conjunct2, THEN conjunct2]
  from issued[THEN spec, THEN spec, THEN spec, THEN mp,
              OF conjI[OF acc conjI[OF res conjI[OF none conjI[OF len
                   conjI[OF path(1) conjI[OF path(2) conjI[OF last nothead]]]]]]]]
  have "ListCommitsCall \<lparr>opRepo = \<lparr>URI = ''r''\<rparr>,
                    Opt = \<lparr>PerPage = 1000, Head = ''h'', Base = ''m'', optPath = ''''\<rparr>\<rparr>
     \<in> set (fst (GetSrclibDataVersionForPath cachedWorld ?entry))"
    by (auto simp: flag a atHead_def)
  with a b c show ?thesis by blast
qed

subsection \<open>C9: errors of the collaborators\<close>

text \<open>
  Claim C9, as amended. The calls of a resolution are all different, so none is
  repeated; every call before the last succeeded; when the last call failed, the
  resolver returns the error of that call as it is, neither wrapped nor reclassified.
  When no call failed, an error result is a \<open>NotFound\<close> that the resolver made itself
  at one of its decision points, and each of them is named with its condition: the root
  restriction (the path is \<open>"."\<close> and there is no exact record), no commits touch the
  path (asked for the one most recent commit of the path, the history answers with
  none; or, against the page size of one, with several), the boundary equals the head,
  and the scan is exhausted with no match. The last four parts say the converse: at
  each decision point the result is that \<open>NotFound\<close>. The claim as written says that
  the error is wrapped with the repository, head and path of the request, and it does
  not list the root restriction.
\<close>

theorem collaborator_errors_returned_unchanged:
  assumes run: "GetSrclibDataVersionForPath s entry = (tr, res)"
  shows "tr \<noteq> [] \<and> distinct tr \<and> (\<forall>c \<in> set (butlast tr). failure s c = None) \<and>
         (\<forall>err. failure s (last tr) = Some err \<longrightarrow> res = Inl err) \<and>
         (\<forall>err. failure s (last tr) = None \<and> res = Inl err \<longrightarrow>
            (\<exists>rr. resolveRepoRev s (RepoRev entry) = Inr rr \<and>
               ((\<exists>vers. Path entry = ''.'' \<and> last tr = VersionsCall (exactQuery rr) \<and>
                      Versions s (exactQuery rr) = Inr vers \<and> length vers \<noteq> 1 \<and>
                      err = Errorf NotFound (NoVersionForRoot rr)) \<or>
                (\<exists>cs. last tr = ListCommitsCall (lastPathCommitOp (entry\<lparr>RepoRev := rr\<rparr>)) \<and>
                      ListCommits s (lastPathCommitOp (entry\<lparr>RepoRev := rr\<rparr>)) = Inr cs \<and>
                      (cs = [] \<or> 1 < length cs) \<and>
                      err = Errorf NotFound (NoCommitsForPath (Path entry) rr)) \<or>
                (\<exists>m. last tr = ListCommitsCall (lastPathCommitOp (entry\<lparr>RepoRev := rr\<rparr>)) \<and>
                     ListCommits s (lastPathCommitOp (entry\<lparr>RepoRev := rr\<rparr>)) = Inr [m] \<and>
                     ID m = CommitID rr \<and>
                     err = Errorf NotFound (LastModifiedByHead rr)) \<or>
                (\<exists>ids vers. last tr = VersionsCall [ByRepos [URI rr], ByCommitIDs ids] \<and>
                     Versions s [ByRepos [URI rr], ByCommitIDs ids] = Inr vers \<and>
                     (\<forall>c \<in> set ids. c \<notin> vCommitID ` set vers) \<and>
                     err = Errorf NotFound
                       (NoVersionsFound (entry\<lparr>RepoRev := rr\<rparr>) (length ids) (length vers)))))) \<and>
         (\<forall>rr vers.
            VerifyUserHasReadAccess s (URI (RepoRev entry)) = None \<and>
            resolveRepoRev s (RepoRev entry) = Inr rr \<and>
            Versions s (exactQuery rr) = Inr vers \<and> length vers \<noteq> 1 \<longrightarrow>
            (Path entry = ''.'' \<longrightarrow> res = Inl (Errorf NotFound (NoVersionForRoot rr))) \<and>
            (\<forall>cs. Path entry \<noteq> ''.'' \<and> Path entry \<noteq> '''' \<and>
                  ListCommits s (lastPathCommitOp (entry\<lparr>RepoRev := rr\<rparr>)) = Inr cs \<and>
                  (cs = [] \<or> 1 < length cs) \<longrightarrow>
                  res = Inl (Errorf NotFound (NoCommitsForPath (Path entry) rr))) \<and>
            (\<forall>m. Path entry \<noteq> ''.'' \<and> Path entry \<noteq> '''' \<and>
                 ListCommits s (lastPathCommitOp (entry\<lparr>RepoRev := rr\<rparr>)) = Inr [m] \<and>
                 ID m = CommitID rr \<longrightarrow>
                 res = Inl (Errorf NotFound (LastModifiedByHead rr))) \<and>
            (\<forall>ids found.
                 Path entry \<noteq> ''.'' \<and> tr \<noteq> [] \<and>
                 last tr = VersionsCall [ByRepos [URI rr], ByCommitIDs ids] \<and>
                 Versions s [ByRepos [URI rr], ByCommitIDs ids] = Inr found \<and>
                 (\<forall>c \<in> set ids. c \<notin> vCommitID ` set found) \<longrightarrow>
                 res = Inl (Errorf NotFound
                   (NoVersionsFound (entry\<lparr>RepoRev := rr\<rparr>) (length ids) (length found)))))"
    (is "?P1 \<and> ?P2 \<and> ?P3 \<and> ?P4 \<and> ?P5 \<and> ?P6")
proof -
  let ?c1 = "VerifyUserHasReadAccessCall (URI (RepoRev entry))"
  let ?c2 = "resolveRepoRevCall (RepoRev entry)"
  have pass: "?P1 \<and> ?P2 \<and> ?P3 \<and> ?P4"
    using run
    by (auto simp: resolver_defs exactQuery_def lastPathCommitOp_def candidatesOp_def
             split: sum.splits prod.splits if_splits option.splits)
  have made: "\<exists>rr. resolveRepoRev s (RepoRev entry) = Inr rr \<and>
               ((\<exists>vers. Path entry = ''.'' \<and> last tr = VersionsCall (exactQuery rr) \<and>
                      Versions s (exactQuery rr) = Inr vers \<and> length vers \<noteq> 1 \<and>
                      err = Errorf NotFound (NoVersionForRoot rr)) \<or>
                (\<exists>cs. last tr = ListCommitsCall (lastPathCommitOp (entry\<lparr>RepoRev := rr\<rparr>)) \<and>
                      ListCommits s (lastPathCommitOp (entry\<lparr>RepoRev := rr\<rparr>)) = Inr cs \<and>
                      (cs = [] \<or> 1 < length cs) \<and>
                      err = Errorf NotFound (NoCommitsForPath (Path entry) rr)) \<or>
                (\<exists>m. last tr = ListCommitsCall (lastPathCommitOp (entry\<lparr>RepoRev := rr\<rparr>)) \<and>
                     ListCommits s (lastPathCommitOp (entry\<lparr>RepoRev := rr\<rparr>)) = Inr [m] \<and>
                     ID m = CommitID rr \<and>
                     err = Errorf NotFound (LastModifiedByHead rr)) \<or>
                (\<exists>ids vers. last tr = VersionsCall [ByRepos [URI rr], ByCommitIDs ids] \<and>
                     Versions s [ByRepos [URI rr], ByCommitIDs ids] = Inr vers \<and>
                     (\<forall>c \<in> set ids. c \<notin> vCommitID ` set vers) \<and>
                     err = Errorf NotFound
                       (NoVersionsFound (entry\<lparr>RepoRev := rr\<rparr>) (length ids) (length vers))))"
    if ok: "failure s (last tr) = None" and err: "res = Inl err" for err
  proof (cases "VerifyUserHasReadAccess s (URI (RepoRev entry))")
    case (Some e)
    with run ok err show ?thesis by (auto simp: GetSrclibDataVersionForPath_def)
  next
    case acc: None
    show ?thesis
    proof (cases "resolveRepoRev s (RepoRev entry)")
      case (Inl e)
      with run acc ok err show ?thesis by (auto simp: GetSrclibDataVersionForPath_def)
    next
      case res: (Inr rr)
      show ?thesis
      proof (cases "Versions s (exactQuery rr)")
        case (Inl e)
        with run acc res ok err show ?thesis by (auto simp: GetSrclibDataVersionForPath_def)
      next
        case vers: (Inr vers)
        show ?thesis
        proof (cases "length vers = 1")
          case True
          with run acc res vers err show ?thesis
            by (auto simp: GetSrclibDataVersionForPath_def)
        next
          case notone: False
          show ?thesis
          proof (cases "Path entry = ''.''")
            case True
            with run acc res vers notone err show ?thesis
              by (auto simp: GetSrclibDataVersionForPath_def)
          next
            case False
            let ?e = "entry\<lparr>RepoRev := rr\<rparr>"
            from resolver_falls_through[OF acc res vers notone False] run
            have tr: "tr = [?c1, ?c2, VersionsCall (exactQuery rr)] @
                           fst (getSrclibDataVersionForPathLookback s ?e)"
              and r: "res = snd (getSrclibDataVersionForPathLookback s ?e)"
              by simp_all
            have ne: "fst (getSrclibDataVersionForPathLookback s ?e) \<noteq> []"
              using lookback_trace by blast
            with tr have last: "last tr = last (fst (getSrclibDataVersionForPathLookback s ?e))"
              by simp
            have lb: "getSrclibDataVersionForPathLookback s ?e =
                        (fst (getSrclibDataVersionForPathLookback s ?e), Inl err)"
              using r err by (metis prod.collapse)
            from lookback_made_errors[OF lb] ok last res show ?thesis by simp
          qed
        qed
      qed
    qed
  qed
  have conv: "(Path entry = ''.'' \<longrightarrow> res = Inl (Errorf NotFound (NoVersionForRoot rr))) \<and>
            (\<forall>cs. Path entry \<noteq> ''.'' \<and> Path entry \<noteq> '''' \<and>
                  ListCommits s (lastPathCommitOp (entry\<lparr>RepoRev := rr\<rparr>)) = Inr cs \<and>
                  (cs = [] \<or> 1 < length cs) \<longrightarrow>
                  res = Inl (Errorf NotFound (NoCommitsForPath (Path entry) rr))) \<and>
            (\<forall>m. Path entry \<noteq> ''.'' \<and> Path entry \<noteq> '''' \<and>
                 ListCommits s (lastPathCommitOp (entry\<lparr>RepoRev := rr\<rparr>)) = Inr [m] \<and>
                 ID m = CommitID rr \<longrightarrow>
                 res = Inl (Errorf NotFound (LastModifiedByHead rr))) \<and>
            (\<forall>ids found.
                 Path entry \<noteq> ''.'' \<and> tr \<noteq> [] \<and>
                 last tr = VersionsCall [ByRepos [URI rr], ByCommitIDs ids] \<and>
                 Versions s [ByRepos [URI rr], ByCommitIDs ids] = Inr found \<and>
                 (\<forall>c \<in> set ids. c \<notin> vCommitID ` set found) \<longrightarrow>
                 res = Inl (Errorf NotFound
                   (NoVersionsFound (entry\<lparr>RepoRev := rr\<rparr>) (length ids) (length found))))"
    if acc: "VerifyUserHasReadAccess s (URI (RepoRev entry)) = None"
      and res: "resolveRepoRev s (RepoRev entry) = Inr rr"
      and vers: "Versions s (exactQuery rr) = Inr vers" and notone: "length vers \<noteq> 1"
    for rr vers
  proof (cases "Path entry = ''.''")
    case True
    with run acc res vers notone show ?thesis
      by (auto simp: GetSrclibDataVersionForPath_def)
  next
    case False
    let ?e = "entry\<lparr>RepoRev := rr\<rparr>"
    let ?lb = "getSrclibDataVersionForPathLookback s ?e"
    from resolver_falls_through[OF acc res vers notone False] run
    have tr: "tr = [?c1, ?c2, VersionsCall (exactQuery rr)] @ fst ?lb"
      and r: "res = snd ?lb"
      by simp_all
    have ne: "fst ?lb \<noteq> []" using lookback_trace by blast
    with tr have last: "last tr = last (fst ?lb)" by simp
    have a: "res = Inl (Errorf NotFound (NoCommitsForPath (Path entry) rr))"
      if "Path entry \<noteq> ''''" "ListCommits s (lastPathCommitOp ?e) = Inr cs"
         "cs = [] \<or> 1 < length cs" for cs
    proof -
      from that(3) have "length cs \<noteq> 1" by auto
      with that(1,2) show ?thesis
        unfolding r by (simp add: getSrclibDataVersionForPathLookback_def findBase_def Let_def)
    qed
    have b: "res = Inl (Errorf NotFound (LastModifiedByHead rr))"
      if "Path entry \<noteq> ''''" "ListCommits s (lastPathCommitOp ?e) = Inr [m]"
         "ID m = CommitID rr" for m
      using that
      unfolding r by (simp add: getSrclibDataVersionForPathLookback_def findBase_def Let_def)
    have c: "res = Inl (Errorf NotFound (NoVersionsFound ?e (length ids) (length found)))"
      if "last tr = VersionsCall [ByRepos [URI rr], ByCommitIDs ids]"
         "Versions s [ByRepos [URI rr], ByCommitIDs ids] = Inr found"
         "\<forall>c \<in> set ids. c \<notin> vCommitID ` set found" for ids found
    proof -
      have lb: "?lb = (fst ?lb, res)" using r by simp
      from that(3) have "scanCandidates (mkVerMap found) ids 0 = None"
        by (simp add: scanCandidates_None mkVerMap_present)
      with lookback_at_scan[OF lb ne, of "[URI rr]" ids found] that(1,2) last
      show ?thesis by simp
    qed
    from False a b c show ?thesis by blast
  qed
  from pass have p1: ?P1 and p2: ?P2 and p3: ?P3 and p4: ?P4 by blast+
  have p5: ?P5 by (intro allI impI, elim conjE, rule made)
  have p6: ?P6 by (intro allI impI, elim conjE, rule conv; assumption)
  show ?thesis by (rule conjI[OF p1 conjI[OF p2 conjI[OF p3 conjI[OF p4 conjI[OF p5 p6]]]]])
qed

text \<open>The commit listing is out of service: its error comes back as it is.\<close>

theorem collaborator_errors_returned_unchanged_witness:
  "failure brokenWorld (ListCommitsCall (lastPathCommitOp \<lparr>RepoRev = atHead, Path = ''a.go''\<rparr>)) =
     Some gitDown \<and>
   snd (GetSrclibDataVersionForPath brokenWorld \<lparr>RepoRev = atHead, Path = ''a.go''\<rparr>) =
     Inl gitDown"
proof -
  let ?entry = "\<lparr>RepoRev = atHead, Path = ''a.go''\<rparr>"
  let ?tr = "[VerifyUserHasReadAccessCall ''r'', resolveRepoRevCall atHead,
              VersionsCall (exactQuery atHead), ListCommitsCall (lastPathCommitOp ?entry)]"
  have tr: "fst (GetSrclibDataVersionForPath brokenWorld ?entry) = ?tr" by code_simp
  have run: "GetSrclibDataVersionForPath brokenWorld ?entry =
               (?tr, snd (GetSrclibDataVersionForPath brokenWorld ?entry))"
    unfolding tr[symmetric] by simp
  have failed: "failure brokenWorld (last ?tr) = Some gitDown" by code_simp
  note all = collaborator_errors_returned_unchanged[OF run]
  note passed = all[THEN conjunct2, THEN conjunct2, THEN conjunct2, THEN conjunct1]
  from passed[THEN spec, THEN mp, OF failed]
  have "snd (GetSrclibDataVersionForPath brokenWorld ?entry) = Inl gitDown" .
  moreover have "failure brokenWorld (ListCommitsCall (lastPathCommitOp ?entry)) = Some gitDown"
    using failed by simp
  ultimately show ?thesis by (rule conjI[rotated])
qed

text \<open>
  Two requests that differ in repository, head and path meet the same failure and get
  the same error value, the one the collaborator made: nothing of the request is in it.
  And a request for the path \<open>"."\<close>, all of whose calls succeed, gets a \<open>NotFound\<close>
  that is none of the three the claim lists.
\<close>

theorem upstream_error_carries_no_context:
  "snd (GetSrclibDataVersionForPath brokenWorld \<lparr>RepoRev = atHead, Path = ''a.go''\<rparr>) =
     Inl (Errorf Unavailable (Text ''git backend down'')) \<and>
   snd (GetSrclibDataVersionForPath brokenWorld \<lparr>RepoRev = elsewhere, Path = ''b.go''\<rparr>) =
     Inl (Errorf Unavailable (Text ''git backend down'')) \<and>
   URI atHead \<noteq> URI elsewhere \<and> CommitID atHead \<noteq> CommitID elsewhere \<and>
   GetSrclibDataVersionForPath (shortWorld [\<lparr>Repo = ''r'', vCommitID = ''b''\<rparr>])
     \<lparr>RepoRev = atHead, Path = ''.''\<rparr> =
     ([VerifyUserHasReadAccessCall ''r'', resolveRepoRevCall atHead,
       VersionsCall (exactQuery atHead)],
      Inl (Errorf NotFound (NoVersionForRoot atHead))) \<and>
   failure (shortWorld [\<lparr>Repo = ''r'', vCommitID = ''b''\<rparr>]) (VerifyUserHasReadAccessCall ''r'') = None \<and>
   failure (shortWorld [\<lparr>Repo = ''r'', vCommitID = ''b''\<rparr>]) (resolveRepoRevCall atHead) = None \<and>
   failure (shortWorld [\<lparr>Repo = ''r'', vCommitID = ''b''\<rparr>]) (VersionsCall (exactQuery atHead)) = None"
  by code_simp

subsection \<open>C10: the access check and the count of exact records\<close>

text \<open>
  Claim C10. The first call of every resolution is the check of the caller's read
  access to the repository; if it fails, its error is returned as it is and no other
  call is made, so no query reaches the store or the history. And if the exact-match
  query answers with a number of records other than one, the exact match counts as
  absent: the resolution goes on to the check for the path \<open>"."\<close> and to the lookback.
\<close>

theorem access_checked_before_queries:
  "(\<exists>rest. fst (GetSrclibDataVersionForPath s entry) =
             VerifyUserHasReadAccessCall (URI (RepoRev entry)) # rest) \<and>
   (\<forall>err. VerifyUserHasReadAccess s (URI (RepoRev entry)) = Some err \<longrightarrow>
      GetSrclibDataVersionForPath s entry =
        ([VerifyUserHasReadAccessCall (URI (RepoRev entry))], Inl err)) \<and>
   (\<forall>rr vers.
      VerifyUserHasReadAccess s (URI (RepoRev entry)) = None \<and>
      resolveRepoRev s (RepoRev entry) = Inr rr \<and>
      Versions s (exactQuery rr) = Inr vers \<and> length vers \<noteq> 1 \<longrightarrow>
      GetSrclibDataVersionForPath s entry =
        (if Path entry = ''.''
         then ([VerifyUserHasReadAccessCall (URI (RepoRev entry)),
                resolveRepoRevCall (RepoRev entry), VersionsCall (exactQuery rr)],
               Inl (Errorf NotFound (NoVersionForRoot rr)))
         else ([VerifyUserHasReadAccessCall (URI (RepoRev entry)),
                resolveRepoRevCall (RepoRev entry), VersionsCall (exactQuery rr)] @
                fst (getSrclibDataVersionForPathLookback s (entry\<lparr>RepoRev := rr\<rparr>)),
               snd (getSrclibDataVersionForPathLookback s (entry\<lparr>RepoRev := rr\<rparr>)))))"
  by (auto simp: GetSrclibDataVersionForPath_def Let_def
           split: sum.splits prod.splits option.splits)

text \<open>
  Access denied although a record exists at the head; and two records at the head,
  which the resolver does not take for an exact match.
\<close>

theorem access_checked_before_queries_witness:
  "GetSrclibDataVersionForPath deniedWorld \<lparr>RepoRev = atHead, Path = ''a.go''\<rparr> =
     ([VerifyUserHasReadAccessCall ''r''],
      Inl (Errorf PermissionDenied (Text ''read access denied''))) \<and>
   GetSrclibDataVersionForPath
     (shortWorld [\<lparr>Repo = ''r'', vCommitID = ''h''\<rparr>, \<lparr>Repo = ''r'', vCommitID = ''h''\<rparr>])
     \<lparr>RepoRev = atHead, Path = ''.''\<rparr> =
     ([VerifyUserHasReadAccessCall ''r'', resolveRepoRevCall atHead,
       VersionsCall (exactQuery atHead)],
      Inl (Errorf NotFound (NoVersionForRoot atHead)))"
proof -
  let ?entry = "\<lparr>RepoRev = atHead, Path = ''a.go''\<rparr>"
  let ?dot = "\<lparr>RepoRev = atHead, Path = ''.''\<rparr>"
  let ?twice = "[\<lparr>Repo = ''r'', vCommitID = ''h''\<rparr>, \<lparr>Repo = ''r'', vCommitID = ''h''\<rparr>]"
  have denied: "VerifyUserHasReadAccess deniedWorld (URI (RepoRev ?entry)) =
                  Some (Errorf PermissionDenied (Text ''read access denied''))"
    by code_simp
  have acc: "VerifyUserHasReadAccess (shortWorld ?twice) (URI (RepoRev ?dot)) = None"
    by code_simp
  have res: "resolveRepoRev (shortWorld ?twice) (RepoRev ?dot) = Inr atHead" by code_simp
  have two: "Versions (shortWorld ?twice) (exactQuery atHead) = Inr ?twice" by code_simp
  have len: "length ?twice \<noteq> 1" by simp
  from access_checked_before_queries[of deniedWorld ?entry] denied
  have first: "GetSrclibDataVersionForPath deniedWorld ?entry =
     ([VerifyUserHasReadAccessCall ''r''],
      Inl (Errorf PermissionDenied (Text ''read access denied'')))"
    by (simp add: atHead_def)
  from access_checked_before_queries[of "shortWorld ?twice" ?dot] acc res two len
  have "GetSrclibDataVersionForPath (shortWorld ?twice) ?dot =
     ([VerifyUserHasReadAccessCall ''r'', resolveRepoRevCall atHead,
       VersionsCall (exactQuery atHead)],
      Inl (Errorf NotFound (NoVersionForRoot atHead)))"
    by (simp add: atHead_def)
  with first show ?thesis by simp
qed

end
